theory Spec2Isabelle
  imports Complex_Main "HOL-Library.Char_ord" "HOL-Library.List_Lexorder"
begin

section \<open>Vectors and position buffers\<close>

text \<open>
  The scene store of \<^verbatim>\<open>src/store/sceneStore.ts\<close> and the edge derivation of
  \<^verbatim>\<open>src/components/Scene.tsx\<close>, embedded as functions on an explicit state.

  A JavaScript number is a real number here: arithmetic is exact (the rounding of
  64-bit operations is not followed) and non-finite values do not occur. What a
  position buffer stores is rounded to a 32-bit float, as its \<^verbatim>\<open>Float32Array\<close> does. A
  \<^verbatim>\<open>THREE.Vector3\<close> is a value; \<^verbatim>\<open>clone()\<close> is the identity.
\<close>

datatype Vector3 = Vector3 (vx: real) (vy: real) (vz: real)

definition sub :: "Vector3 \<Rightarrow> Vector3 \<Rightarrow> Vector3" where
  "sub a b = Vector3 (vx a - vx b) (vy a - vy b) (vz a - vz b)"

definition add :: "Vector3 \<Rightarrow> Vector3 \<Rightarrow> Vector3" where
  "add a b = Vector3 (vx a + vx b) (vy a + vy b) (vz a + vz b)"

definition distanceToSquared :: "Vector3 \<Rightarrow> Vector3 \<Rightarrow> real" where
  "distanceToSquared a b =
     (let dx = vx a - vx b; dy = vy a - vy b; dz = vz a - vz b
      in dx * dx + dy * dy + dz * dz)"

definition distanceTo :: "Vector3 \<Rightarrow> Vector3 \<Rightarrow> real" where
  "distanceTo a b = sqrt (distanceToSquared a b)"

text \<open>The tolerance \<^verbatim>\<open>0.0001\<close> of both groupers.\<close>

definition epsilon :: real where
  "epsilon = 1 / 10000"

text \<open>
  Storing a number in a \<^verbatim>\<open>Float32Array\<close> rounds it as \<^verbatim>\<open>Math.fround\<close> does: to the
  nearest multiple of the unit in the last place of a 24-bit significand, ties to the
  even multiple; below \<open>2 powi (- 126)\<close> the unit stays \<open>2 powi (- 149)\<close>. Beyond the
  largest 32-bit float the array holds an infinity; this model goes on with the rounded
  real number.
\<close>

definition roundHalfEven :: "real \<Rightarrow> int" where
  "roundHalfEven r =
     (let f = \<lfloor>r\<rfloor>
      in if r - of_int f < 1 / 2 then f
         else if 1 / 2 < r - of_int f then f + 1
         else if even f then f else f + 1)"

definition ulpExponent :: "real \<Rightarrow> int" where
  "ulpExponent x = max (\<lfloor>log 2 \<bar>x\<bar>\<rfloor> - 23) (- 149)"

definition fround :: "real \<Rightarrow> real" where
  "fround x =
     (if x = 0 then 0
      else of_int (roundHalfEven (x / 2 powi ulpExponent x)) * 2 powi ulpExponent x)"

text \<open>
  \<^verbatim>\<open>geometry.attributes.position\<close>: one point per vertex index. \<^verbatim>\<open>getX(i)\<close> past
  the end reads \<^verbatim>\<open>undefined\<close> from the typed array (\<open>None\<close>); \<^verbatim>\<open>setXYZ\<close> stores the
  three rounded coordinates, and past the end it writes nothing.
\<close>

type_synonym BufferAttribute = "Vector3 list"

definition count :: "BufferAttribute \<Rightarrow> nat" where
  "count positions = length positions"

definition getX :: "BufferAttribute \<Rightarrow> nat \<Rightarrow> real option" where
  "getX positions i = (if i < count positions then Some (vx (positions ! i)) else None)"

definition getY :: "BufferAttribute \<Rightarrow> nat \<Rightarrow> real option" where
  "getY positions i = (if i < count positions then Some (vy (positions ! i)) else None)"

definition getZ :: "BufferAttribute \<Rightarrow> nat \<Rightarrow> real option" where
  "getZ positions i = (if i < count positions then Some (vz (positions ! i)) else None)"

definition setXYZ :: "BufferAttribute \<Rightarrow> nat \<Rightarrow> real \<Rightarrow> real \<Rightarrow> real \<Rightarrow> BufferAttribute" where
  "setXYZ positions i x y z =
     (if i < count positions then positions[i := Vector3 (fround x) (fround y) (fround z)]
      else positions)"

text \<open>The vector a buffer holds after \<^verbatim>\<open>setXYZ(i, p.x, p.y, p.z)\<close>.\<close>

definition stored :: "Vector3 \<Rightarrow> Vector3" where
  "stored p = Vector3 (fround (vx p)) (fround (vy p)) (fround (vz p))"

text \<open>
  The constructor \<^verbatim>\<open>Vector3(x = 0, y = 0, z = 0)\<close>: an \<^verbatim>\<open>undefined\<close> argument takes the
  default 0.
\<close>

definition newVector3 :: "real option \<Rightarrow> real option \<Rightarrow> real option \<Rightarrow> Vector3" where
  "newVector3 x y z =
     Vector3 (case x of None \<Rightarrow> 0 | Some v \<Rightarrow> v)
             (case y of None \<Rightarrow> 0 | Some v \<Rightarrow> v)
             (case z of None \<Rightarrow> 0 | Some v \<Rightarrow> v)"

text \<open>
  \<^verbatim>\<open>new THREE.Vector3(positions.getX(i), positions.getY(i), positions.getZ(i))\<close>: past
  the end of the buffer it is the origin.
\<close>

definition vertexAt :: "BufferAttribute \<Rightarrow> nat \<Rightarrow> Vector3" where
  "vertexAt positions i =
     newVector3 (getX positions i) (getY positions i) (getZ positions i)"

section \<open>Scene objects and the store\<close>

text \<open>
  The class of a geometry with the parameters the resolution change reads:
  \<^verbatim>\<open>CylinderGeometry(radiusTop, radiusBottom, height, radialSegments, heightSegments,
  openEnded, thetaStart, thetaLength)\<close> and \<^verbatim>\<open>SphereGeometry(radius, widthSegments,
  heightSegments, phiStart, phiLength, thetaStart, thetaLength)\<close>; \<open>OtherGeometry\<close> is
  an instance of neither class. The discriminators are the \<^verbatim>\<open>instanceof\<close> tests.
\<close>

datatype GeometryKind =
    isCylinderGeometry: CylinderGeometry real real real real real bool real real
  | isSphereGeometry: SphereGeometry real real real real real real real
  | OtherGeometry

record BufferGeometry =
  kind :: GeometryKind
  attributes_position :: BufferAttribute
  index :: "nat list option"

text \<open>
  A \<^verbatim>\<open>THREE.Object3D\<close> is a mesh with its geometry or anything else. The store holds
  references; \<open>heap\<close> gives the object behind each reference, and a mutation of a
  geometry in place is an update of the heap. Each mesh owns its geometry.
\<close>

type_synonym ref = nat

datatype Object3D = Mesh BufferGeometry | Object3D

datatype TransformMode = translate | rotate | scale

datatype EditMode = vertex | edge | face | normal

text \<open>One entry of \<^verbatim>\<open>objects\<close>: \<^verbatim>\<open>{ id, object, name, visible }\<close>.\<close>

record SceneObject =
  o_id :: string
  o_object :: ref
  o_name :: string
  o_visible :: bool

record SelectedElements =
  vertices :: "nat list"
  edges :: "nat list"
  faces :: "nat list"

text \<open>\<^verbatim>\<open>draggedVertex\<close>: \<^verbatim>\<open>{ indices, position, initialPosition }\<close>.\<close>

record DraggedVertex =
  v_indices :: "nat list"
  v_position :: Vector3
  v_initialPosition :: Vector3

text \<open>
  \<^verbatim>\<open>draggedEdge\<close>: \<^verbatim>\<open>{ indices, positions, initialPositions, edgeIndices }\<close>. Every
  element of \<^verbatim>\<open>indices\<close> is built as \<^verbatim>\<open>[v1Index, v2Index]\<close> and read as
  \<^verbatim>\<open>[v1, v2]\<close>: a pair.
\<close>

record DraggedEdge =
  e_indices :: "(nat \<times> nat) list"
  e_positions :: "Vector3 list"
  e_initialPositions :: "Vector3 list"
  e_edgeIndices :: "nat list"

record SceneState =
  objects :: "SceneObject list"
  selectedObject :: "ref option"
  transformMode :: "TransformMode option"
  editMode :: "EditMode option"
  selectedElements :: SelectedElements
  draggedVertex :: "DraggedVertex option"
  draggedEdge :: "DraggedEdge option"
  heap :: "ref \<Rightarrow> Object3D"

text \<open>\<^verbatim>\<open>state.selectedObject instanceof THREE.Mesh\<close>, with the geometry when it holds.\<close>

definition selectedMesh :: "SceneState \<Rightarrow> (ref \<times> BufferGeometry) option" where
  "selectedMesh state =
     (case selectedObject state of
        None \<Rightarrow> None
      | Some r \<Rightarrow> (case heap state r of Mesh geometry \<Rightarrow> Some (r, geometry) | Object3D \<Rightarrow> None))"

text \<open>Writing the position attribute of the mesh behind \<open>r\<close> in place.\<close>

definition writePositions :: "ref \<Rightarrow> BufferGeometry \<Rightarrow> BufferAttribute \<Rightarrow> SceneState \<Rightarrow> SceneState" where
  "writePositions r geometry positions state =
     state\<lparr>heap := (heap state)(r := Mesh (geometry\<lparr>attributes_position := positions\<rparr>))\<rparr>"

text \<open>The position buffer of the object behind \<open>r\<close>; an object that is no mesh has none.\<close>

definition positionsOf :: "SceneState \<Rightarrow> ref \<Rightarrow> BufferAttribute" where
  "positionsOf state r =
     (case heap state r of Mesh geometry \<Rightarrow> attributes_position geometry | Object3D \<Rightarrow> [])"

subsection \<open>Object list and selection\<close>

text \<open>
  \<^verbatim>\<open>removeObject\<close>: \<^verbatim>\<open>find(...)?.object === state.selectedObject\<close> holds only when an
  entry is found and the selection is its object.
\<close>

definition removeObject :: "string \<Rightarrow> SceneState \<Rightarrow> SceneState" where
  "removeObject i state =
     state\<lparr>objects := filter (\<lambda>obj. o_id obj \<noteq> i) (objects state),
           selectedObject :=
             (case List.find (\<lambda>obj. o_id obj = i) (objects state) of
                None \<Rightarrow> selectedObject state
              | Some obj \<Rightarrow>
                  if Some (o_object obj) = selectedObject state then None
                  else selectedObject state)\<rparr>"

definition setSelectedObject :: "ref option \<Rightarrow> SceneState \<Rightarrow> SceneState" where
  "setSelectedObject object state = state\<lparr>selectedObject := object\<rparr>"

definition setEditMode :: "EditMode option \<Rightarrow> SceneState \<Rightarrow> SceneState" where
  "setEditMode mode state = state\<lparr>editMode := mode\<rparr>"

subsection \<open>Vertex drag\<close>

text \<open>
  \<^verbatim>\<open>startVertexDrag\<close>: \<^verbatim>\<open>selectedPos\<close> and the scan
  \<^verbatim>\<open>for (let i = 0; i < positions.count; i++)\<close>.
\<close>

definition overlappingIndices :: "BufferAttribute \<Rightarrow> nat \<Rightarrow> nat list" where
  "overlappingIndices positions index' =
     (let selectedPos = vertexAt positions index'
      in filter (\<lambda>i. distanceTo (vertexAt positions i) selectedPos < epsilon)
           [0..<count positions])"

definition startVertexDrag :: "nat \<Rightarrow> Vector3 \<Rightarrow> SceneState \<Rightarrow> SceneState" where
  "startVertexDrag index' position state =
     (case selectedMesh state of
        None \<Rightarrow> state
      | Some (r, geometry) \<Rightarrow>
          (let group = overlappingIndices (attributes_position geometry) index'
           in state\<lparr>selectedElements := (selectedElements state)\<lparr>vertices := group\<rparr>,
                    draggedVertex := Some \<lparr>v_indices = group, v_position = position,
                                           v_initialPosition = position\<rparr>\<rparr>))"

text \<open>The \<^verbatim>\<open>forEach\<close> of \<^verbatim>\<open>updateVertexDrag\<close> over the session's indices.\<close>

fun setEach :: "nat list \<Rightarrow> Vector3 \<Rightarrow> BufferAttribute \<Rightarrow> BufferAttribute" where
  "setEach [] position positions = positions"
| "setEach (i # rest) position positions =
     setEach rest position (setXYZ positions i (vx position) (vy position) (vz position))"

definition updateVertexDrag :: "Vector3 \<Rightarrow> SceneState \<Rightarrow> SceneState" where
  "updateVertexDrag position state =
     (case draggedVertex state of
        None \<Rightarrow> state
      | Some dragged \<Rightarrow>
          (case selectedMesh state of
             None \<Rightarrow> state
           | Some (r, geometry) \<Rightarrow>
               (writePositions r geometry
                  (setEach (v_indices dragged) position (attributes_position geometry)) state)
                 \<lparr>draggedVertex := Some (dragged\<lparr>v_position := position\<rparr>)\<rparr>))"

definition endVertexDrag :: "SceneState \<Rightarrow> SceneState" where
  "endVertexDrag state = state\<lparr>draggedVertex := None\<rparr>"

subsection \<open>Edge drag\<close>

text \<open>
  How a store action ends: it returns the next state, or it throws a
  \<^verbatim>\<open>TypeError\<close> (reading a property of \<^verbatim>\<open>undefined\<close>) and leaves the objects as
  they were mutated up to the throw.
\<close>

datatype Outcome = Returned SceneState | TypeError SceneState

text \<open>The state the store and the objects are in after an action.\<close>

fun after :: "Outcome \<Rightarrow> SceneState" where
  "after (Returned state) = state"
| "after (TypeError state) = state"

text \<open>\<^verbatim>\<open>xs[k]\<close> of a JavaScript array: \<^verbatim>\<open>undefined\<close> past the end.\<close>

definition elementAt :: "'a list \<Rightarrow> nat \<Rightarrow> 'a option" where
  "elementAt xs k = (if k < length xs then Some (xs ! k) else None)"

definition includes' :: "nat list \<Rightarrow> nat \<Rightarrow> bool" where
  "includes' xs v = (v \<in> set xs)"

text \<open>
  \<^verbatim>\<open>v.distanceTo(p) < 0.0001\<close> for a vertex read from the buffer and an element of
  the \<^verbatim>\<open>positions\<close> argument: a missing \<open>p\<close> throws (\<open>None\<close>).
\<close>

definition near :: "Vector3 \<Rightarrow> Vector3 option \<Rightarrow> bool option" where
  "near v p = (case p of None \<Rightarrow> None | Some q \<Rightarrow> Some (distanceTo v q < epsilon))"

text \<open>
  The condition of the inner loop, evaluated left to right with the short circuits of
  \<^verbatim>\<open>||\<close> and \<^verbatim>\<open>&&\<close>.
\<close>

definition sideMatches ::
  "nat list \<Rightarrow> Vector3 list \<Rightarrow> nat \<Rightarrow> nat \<Rightarrow> Vector3 \<Rightarrow> Vector3 \<Rightarrow> bool option" where
  "sideMatches vertexIndices positions v1Index v2Index v1 v2 =
     (if includes' vertexIndices v1Index \<and> includes' vertexIndices v2Index then Some True
      else
        (case near v1 (elementAt positions 0) of
           None \<Rightarrow> None
         | Some b1 \<Rightarrow>
             (case (if b1 then near v2 (elementAt positions 1) else Some False) of
                None \<Rightarrow> None
              | Some True \<Rightarrow> Some True
              | Some False \<Rightarrow>
                  (case near v1 (elementAt positions 1) of
                     None \<Rightarrow> None
                   | Some c1 \<Rightarrow> if c1 then near v2 (elementAt positions 0) else Some False))))"

text \<open>
  The sides visited by \<^verbatim>\<open>for (i = 0; i < count; i += 3) for (j = 0; j < 3; j++)\<close>:
  \<^verbatim>\<open>(i + j, i + ((j + 1) % 3))\<close>.
\<close>

definition triangleSides :: "nat \<Rightarrow> (nat \<times> nat) list" where
  "triangleSides i = map (\<lambda>j. (i + j, i + ((j + 1) mod 3))) [0..<3]"

definition scannedSides :: "nat \<Rightarrow> (nat \<times> nat) list" where
  "scannedSides n = concat (map triangleSides (filter (\<lambda>i. i mod 3 = 0) [0..<n]))"

datatype Scan =
    Scanned "(nat \<times> nat) list" "Vector3 list" "nat list"
  | ScanThrows

text \<open>
  The loop body over the remaining sides, with \<^verbatim>\<open>overlappingEdges\<close>,
  \<^verbatim>\<open>allPositions\<close> and \<^verbatim>\<open>edgeIndices\<close> as accumulators.
\<close>

fun scanSides ::
  "nat list \<Rightarrow> Vector3 list \<Rightarrow> BufferAttribute \<Rightarrow> (nat \<times> nat) list \<Rightarrow>
     (nat \<times> nat) list \<Rightarrow> Vector3 list \<Rightarrow> nat list \<Rightarrow> Scan" where
  "scanSides vertexIndices positions buf [] overlappingEdges allPositions edgeIndices =
     Scanned overlappingEdges allPositions edgeIndices"
| "scanSides vertexIndices positions buf ((v1Index, v2Index) # rest)
       overlappingEdges allPositions edgeIndices =
     (let v1 = vertexAt buf v1Index; v2 = vertexAt buf v2Index
      in case sideMatches vertexIndices positions v1Index v2Index v1 v2 of
           None \<Rightarrow> ScanThrows
         | Some False \<Rightarrow>
             scanSides vertexIndices positions buf rest overlappingEdges allPositions edgeIndices
         | Some True \<Rightarrow>
             scanSides vertexIndices positions buf rest
               (overlappingEdges @ [(v1Index, v2Index)])
               (allPositions @ [v1, v2])
               (edgeIndices @ [length (overlappingEdges @ [(v1Index, v2Index)]) - 1]))"

definition startEdgeDrag :: "nat list \<Rightarrow> Vector3 list \<Rightarrow> nat \<Rightarrow> SceneState \<Rightarrow> Outcome" where
  "startEdgeDrag vertexIndices positions edgeIndex state =
     (case selectedMesh state of
        None \<Rightarrow> Returned state
      | Some (r, geometry) \<Rightarrow>
          (let positionAttribute = attributes_position geometry
           in case scanSides vertexIndices positions positionAttribute
                     (scannedSides (count positionAttribute)) [] [] [edgeIndex] of
                ScanThrows \<Rightarrow> TypeError state
              | Scanned overlappingEdges allPositions edgeIndices \<Rightarrow>
                  Returned (state\<lparr>selectedElements := (selectedElements state)\<lparr>edges := edgeIndices\<rparr>,
                                  draggedEdge := Some \<lparr>e_indices = overlappingEdges,
                                                        e_positions = allPositions,
                                                        e_initialPositions = positions,
                                                        e_edgeIndices = edgeIndices\<rparr>\<rparr>)))"

text \<open>
  The \<^verbatim>\<open>forEach(([v1, v2], index) => ...)\<close> of \<^verbatim>\<open>updateEdgeDrag\<close>: both snapshot
  reads come before the two writes; a missing snapshot throws at \<^verbatim>\<open>.clone()\<close> and the
  result is flagged \<open>False\<close>.
\<close>

fun moveEdges ::
  "(nat \<times> nat) list \<Rightarrow> nat \<Rightarrow> Vector3 list \<Rightarrow> Vector3 \<Rightarrow> BufferAttribute \<Rightarrow> BufferAttribute \<times> bool" where
  "moveEdges [] index' snapshots offset positions = (positions, True)"
| "moveEdges ((v1, v2) # rest) index' snapshots offset positions =
     (case elementAt snapshots (index' * 2) of
        None \<Rightarrow> (positions, False)
      | Some s1 \<Rightarrow>
          (case elementAt snapshots (index' * 2 + 1) of
             None \<Rightarrow> (positions, False)
           | Some s2 \<Rightarrow>
               (let pos1 = add s1 offset; pos2 = add s2 offset
                in moveEdges rest (index' + 1) snapshots offset
                     (setXYZ (setXYZ positions v1 (vx pos1) (vy pos1) (vz pos1))
                        v2 (vx pos2) (vy pos2) (vz pos2)))))"

definition updateEdgeDrag :: "Vector3 \<Rightarrow> SceneState \<Rightarrow> Outcome" where
  "updateEdgeDrag position state =
     (case draggedEdge state of
        None \<Rightarrow> Returned state
      | Some dragged \<Rightarrow>
          (case selectedMesh state of
             None \<Rightarrow> Returned state
           | Some (r, geometry) \<Rightarrow>
               (case elementAt (e_initialPositions dragged) 0 of
                  None \<Rightarrow> TypeError state
                | Some p0 \<Rightarrow>
                    (let offset = sub position p0;
                         (positions, completed) =
                            moveEdges (e_indices dragged) 0 (e_positions dragged) offset
                              (attributes_position geometry)
                     in if completed then Returned (writePositions r geometry positions state)
                        else TypeError (writePositions r geometry positions state)))))"

definition endEdgeDrag :: "SceneState \<Rightarrow> SceneState" where
  "endEdgeDrag state = state\<lparr>draggedEdge := None\<rparr>"

subsection \<open>Resolution change\<close>

text \<open>
  The constructors of \<^verbatim>\<open>THREE.CylinderGeometry\<close> and \<^verbatim>\<open>THREE.SphereGeometry\<close> belong
  to the library: \<open>generate\<close> stands for the buffers they build from the parameters.
\<close>

definition newGeometry ::
  "(GeometryKind \<Rightarrow> BufferAttribute \<times> nat list option) \<Rightarrow> GeometryKind \<Rightarrow> BufferGeometry" where
  "newGeometry generate k =
     \<lparr>kind = k, attributes_position = fst (generate k), index = snd (generate k)\<rparr>"

definition noElements :: SelectedElements where
  "noElements = \<lparr>vertices = [], edges = [], faces = []\<rparr>"

definition updateCylinderVertices ::
  "(GeometryKind \<Rightarrow> BufferAttribute \<times> nat list option) \<Rightarrow> real \<Rightarrow> SceneState \<Rightarrow> SceneState" where
  "updateCylinderVertices generate vertexCount state =
     (case selectedMesh state of
        None \<Rightarrow> state
      | Some (r, oldGeometry) \<Rightarrow>
          (case kind oldGeometry of
             CylinderGeometry radiusTop radiusBottom height radialSegments heightSegments
                 openEnded thetaStart thetaLength \<Rightarrow>
               state\<lparr>heap := (heap state)(r := Mesh (newGeometry generate
                          (CylinderGeometry radiusTop radiusBottom height vertexCount heightSegments
                             openEnded thetaStart thetaLength))),
                     selectedElements := noElements\<rparr>
           | _ \<Rightarrow> state))"

definition updateSphereVertices ::
  "(GeometryKind \<Rightarrow> BufferAttribute \<times> nat list option) \<Rightarrow> real \<Rightarrow> SceneState \<Rightarrow> SceneState" where
  "updateSphereVertices generate vertexCount state =
     (case selectedMesh state of
        None \<Rightarrow> state
      | Some (r, oldGeometry) \<Rightarrow>
          (case kind oldGeometry of
             SphereGeometry radius widthSegments heightSegments phiStart phiLength
                 thetaStart thetaLength \<Rightarrow>
               state\<lparr>heap := (heap state)(r := Mesh (newGeometry generate
                          (SphereGeometry radius vertexCount (vertexCount / 2) phiStart phiLength
                             thetaStart thetaLength))),
                     selectedElements := noElements\<rparr>
           | _ \<Rightarrow> state))"

section \<open>Edge handles\<close>

text \<open>
  \<^verbatim>\<open>EdgeLines\<close> of \<^verbatim>\<open>src/components/Scene.tsx\<close> derives the edge handles from the index
  array of the geometry. The file holds the component twice: once building an array of
  pairs and removing duplicates through sorted, comma-joined keys, once adding
  \<^verbatim>\<open>min-max\<close> keys to a \<^verbatim>\<open>Set\<close>. Both are embedded, with the keys as the strings the
  source builds.

  An index is a natural number; \<open>None\<close> stands for \<^verbatim>\<open>undefined\<close> (a read past the end of
  the array) and for NaN.
\<close>

subsection \<open>Numbers as text\<close>

text \<open>\<^verbatim>\<open>String(n)\<close> of a non-negative integer: its decimal digits.\<close>

definition digitChar :: "nat \<Rightarrow> char" where
  "digitChar d = ''0123456789'' ! d"

fun toString :: "nat \<Rightarrow> string" where
  "toString n = (if n < 10 then [digitChar n] else toString (n div 10) @ [digitChar (n mod 10)])"

declare toString.simps [simp del]

text \<open>
  \<^verbatim>\<open>Number(s)\<close> on the strings the keys are made of: a run of decimal digits is its
  value, the empty string is 0 and \<^verbatim>\<open>"NaN"\<close> is NaN. Other numeric literals do not occur
  in a key.
\<close>

fun indexOf :: "'a \<Rightarrow> 'a list \<Rightarrow> nat option" where
  "indexOf x [] = None"
| "indexOf x (y # ys) = (if x = y then Some 0 else map_option Suc (indexOf x ys))"

definition digitValue :: "char \<Rightarrow> nat option" where
  "digitValue c = indexOf c ''0123456789''"

fun parseDigits :: "nat \<Rightarrow> string \<Rightarrow> nat option" where
  "parseDigits acc [] = Some acc"
| "parseDigits acc (c # cs) =
     (case digitValue c of None \<Rightarrow> None | Some d \<Rightarrow> parseDigits (10 * acc + d) cs)"

definition Number' :: "string \<Rightarrow> nat option" where
  "Number' s = parseDigits 0 s"

text \<open>\<^verbatim>\<open>s.split(sep)\<close> for a separator of one character.\<close>

fun split :: "char \<Rightarrow> string \<Rightarrow> string list" where
  "split sep [] = [[]]"
| "split sep (c # cs) =
     (if c = sep then [] # split sep cs
      else (case split sep cs of w # ws \<Rightarrow> (c # w) # ws | [] \<Rightarrow> [[c]]))"

subsection \<open>Triangles and sets\<close>

text \<open>
  \<^verbatim>\<open>for (let i = 0; i < count; i += 3)\<close> with \<^verbatim>\<open>a = array[i]\<close>, \<^verbatim>\<open>b = array[i + 1]\<close>,
  \<^verbatim>\<open>c = array[i + 2]\<close>: when the length is no multiple of 3, the last reads are
  \<^verbatim>\<open>undefined\<close>.
\<close>

fun triples :: "nat list \<Rightarrow> (nat option \<times> nat option \<times> nat option) list" where
  "triples [] = []"
| "triples [a] = [(Some a, None, None)]"
| "triples [a, b] = [(Some a, Some b, None)]"
| "triples (a # b # c # rest) = (Some a, Some b, Some c) # triples rest"

text \<open>
  A \<^verbatim>\<open>Set\<close> as the list of its elements in insertion order, which is the order of
  \<^verbatim>\<open>Array.from\<close>: adding an element that is present changes nothing.
\<close>

fun addAll :: "'a list \<Rightarrow> 'a list \<Rightarrow> 'a list" where
  "addAll elements [] = elements"
| "addAll elements (x # xs) = addAll (if x \<in> set elements then elements else elements @ [x]) xs"

definition newSet :: "'a list \<Rightarrow> 'a list" where
  "newSet xs = addAll [] xs"

subsection \<open>Duplicates removed through sorted pairs\<close>

text \<open>The array \<^verbatim>\<open>edges\<close> after the loop: \<^verbatim>\<open>[a, b]\<close>, \<^verbatim>\<open>[b, c]\<close>, \<^verbatim>\<open>[c, a]\<close> per triangle.\<close>

definition pushedEdges :: "nat list \<Rightarrow> (nat option \<times> nat option) list" where
  "pushedEdges array = concat (map (\<lambda>(a, b, c). [(a, b), (b, c), (c, a)]) (triples array))"

text \<open>
  \<^verbatim>\<open>edge.slice().sort()\<close> on a pair: \<^verbatim>\<open>sort\<close> without a comparator puts
  \<^verbatim>\<open>undefined\<close> last and orders the other elements by their text, code unit by code
  unit.
\<close>

definition sort2 :: "nat option \<times> nat option \<Rightarrow> nat option \<times> nat option" where
  "sort2 pair =
     (case pair of
        (None, y) \<Rightarrow> (y, None)
      | (Some m, None) \<Rightarrow> (Some m, None)
      | (Some m, Some n) \<Rightarrow> if toString n < toString m then (Some n, Some m) else (Some m, Some n))"

text \<open>\<^verbatim>\<open>join(',')\<close>: \<^verbatim>\<open>undefined\<close> becomes the empty string.\<close>

definition joinComma :: "nat option \<times> nat option \<Rightarrow> string" where
  "joinComma pair =
     (case fst pair of None \<Rightarrow> [] | Some m \<Rightarrow> toString m) @ '','' @
     (case snd pair of None \<Rightarrow> [] | Some n \<Rightarrow> toString n)"

text \<open>
  \<^verbatim>\<open>uniqueEdges\<close>: the keys go through a \<^verbatim>\<open>Set\<close> and are parsed back with
  \<^verbatim>\<open>split(',').map(Number)\<close>. Without an index array the component renders nothing.
\<close>

definition uniqueEdges :: "nat list \<Rightarrow> nat option list list" where
  "uniqueEdges array =
     map (\<lambda>edge. map Number' (split CHR '','' edge))
       (newSet (map (\<lambda>edge. joinComma (sort2 edge)) (pushedEdges array)))"

subsection \<open>Keys of minimum and maximum in a set\<close>

text \<open>\<^verbatim>\<open>Math.min\<close> and \<^verbatim>\<open>Math.max\<close>: NaN when an argument is \<^verbatim>\<open>undefined\<close>.\<close>

definition mathMin :: "nat option \<Rightarrow> nat option \<Rightarrow> nat option" where
  "mathMin x y = (case (x, y) of (Some m, Some n) \<Rightarrow> Some (min m n) | _ \<Rightarrow> None)"

definition mathMax :: "nat option \<Rightarrow> nat option \<Rightarrow> nat option" where
  "mathMax x y = (case (x, y) of (Some m, Some n) \<Rightarrow> Some (max m n) | _ \<Rightarrow> None)"

text \<open>A value inside a template literal: NaN prints as \<^verbatim>\<open>NaN\<close>.\<close>

definition template :: "nat option \<Rightarrow> string" where
  "template x = (case x of None \<Rightarrow> ''NaN'' | Some n \<Rightarrow> toString n)"

definition edgeKey :: "nat option \<Rightarrow> nat option \<Rightarrow> string" where
  "edgeKey a b = template (mathMin a b) @ ''-'' @ template (mathMax a b)"

text \<open>
  The \<^verbatim>\<open>Set\<close> named \<^verbatim>\<open>edges\<close>: three keys are added per triangle; without an index array
  it stays empty.
\<close>

definition edgesSet :: "nat list option \<Rightarrow> string list" where
  "edgesSet index' =
     (case index' of
        None \<Rightarrow> []
      | Some indices \<Rightarrow>
          newSet (concat (map (\<lambda>(a, b, c). [edgeKey a b, edgeKey b c, edgeKey c a]) (triples indices))))"

text \<open>The pairs \<^verbatim>\<open>[v1, v2] = edge.split('-').map(Number)\<close>, one per key.\<close>

definition edgeVertices :: "nat list option \<Rightarrow> nat option list list" where
  "edgeVertices index' = map (\<lambda>edge. map Number' (split CHR ''-'' edge)) (edgesSet index')"

section \<open>Auxiliary notions\<close>

text \<open>
  The writes \<^verbatim>\<open>updateEdgeDrag\<close> performs, as a list in the order of the loop; the
  effect of such a list on a buffer; and whether every pair finds its two snapshots.
\<close>

fun edgeWrites :: "(nat \<times> nat) list \<Rightarrow> nat \<Rightarrow> Vector3 list \<Rightarrow> Vector3 \<Rightarrow> (nat \<times> Vector3) list" where
  "edgeWrites [] k snapshots offset = []"
| "edgeWrites ((v1, v2) # rest) k snapshots offset =
     (case elementAt snapshots (k * 2) of
        None \<Rightarrow> []
      | Some s1 \<Rightarrow>
          (case elementAt snapshots (k * 2 + 1) of
             None \<Rightarrow> []
           | Some s2 \<Rightarrow> (v1, add s1 offset) # (v2, add s2 offset) # edgeWrites rest (k + 1) snapshots offset))"

fun applyWrites :: "(nat \<times> Vector3) list \<Rightarrow> BufferAttribute \<Rightarrow> BufferAttribute" where
  "applyWrites [] positions = positions"
| "applyWrites ((i, p) # ws) positions = applyWrites ws (setXYZ positions i (vx p) (vy p) (vz p))"

fun snapshotsCover :: "(nat \<times> nat) list \<Rightarrow> nat \<Rightarrow> Vector3 list \<Rightarrow> bool" where
  "snapshotsCover [] k snapshots = True"
| "snapshotsCover (e # rest) k snapshots =
     (k * 2 + 1 < length snapshots \<and> snapshotsCover rest (k + 1) snapshots)"

text \<open>
  A side of the scan that \<^verbatim>\<open>startEdgeDrag\<close> takes into the group; the snapshots of a
  list of pairs read from a buffer, two per pair; and the writes that move both
  endpoints of every pair by one offset from such a buffer.
\<close>

definition sideMatched :: "nat list \<Rightarrow> Vector3 list \<Rightarrow> BufferAttribute \<Rightarrow> nat \<times> nat \<Rightarrow> bool" where
  "sideMatched vertexIndices positions buf side =
     (sideMatches vertexIndices positions (fst side) (snd side)
        (vertexAt buf (fst side)) (vertexAt buf (snd side)) = Some True)"

definition endpointsOf :: "BufferAttribute \<Rightarrow> (nat \<times> nat) list \<Rightarrow> Vector3 list" where
  "endpointsOf buf pairs =
     concat (map (\<lambda>side. [vertexAt buf (fst side), vertexAt buf (snd side)]) pairs)"


text \<open>The characters of a decimal numeral.\<close>

definition isDigit :: "char \<Rightarrow> bool" where
  "isDigit c = (c \<in> set ''0123456789'')"

section \<open>Example scenes\<close>

text \<open>A triangle mesh, selected, with no drag session open.\<close>

definition idleState :: SceneState where
  "idleState = \<lparr>objects = [\<lparr>o_id = ''a'', o_object = 0, o_name = ''Cube'', o_visible = True\<rparr>],
     selectedObject = Some 0, transformMode = None, editMode = Some vertex,
     selectedElements = noElements, draggedVertex = None, draggedEdge = None,
     heap = (\<lambda>_. Object3D)(0 := Mesh \<lparr>kind = OtherGeometry,
        attributes_position = [Vector3 0 0 0, Vector3 1 0 0, Vector3 0 1 0], index = None\<rparr>)\<rparr>"

text \<open>Three objects, the second one selected, with a vertex drag open on it.\<close>

definition threeObjects :: SceneState where
  "threeObjects = \<lparr>objects =
       [\<lparr>o_id = ''a'', o_object = 0, o_name = ''Cube'', o_visible = True\<rparr>,
        \<lparr>o_id = ''b'', o_object = 1, o_name = ''Sphere'', o_visible = True\<rparr>,
        \<lparr>o_id = ''c'', o_object = 2, o_name = ''Light'', o_visible = True\<rparr>],
     selectedObject = Some 1, transformMode = None, editMode = Some vertex,
     selectedElements = \<lparr>vertices = [0], edges = [], faces = []\<rparr>,
     draggedVertex = Some \<lparr>v_indices = [0], v_position = Vector3 1 1 1,
                             v_initialPosition = Vector3 1 1 1\<rparr>,
     draggedEdge = None,
     heap = (\<lambda>_. Object3D)
        (0 := Mesh \<lparr>kind = OtherGeometry,
             attributes_position = [Vector3 0 0 0, Vector3 1 0 0, Vector3 0 1 0], index = None\<rparr>,
         1 := Mesh \<lparr>kind = OtherGeometry,
             attributes_position = [Vector3 1 1 1, Vector3 2 1 1, Vector3 1 2 1], index = None\<rparr>)\<rparr>"

text \<open>
  A cylinder and a sphere with elements selected; the cylinder is the target in
  \<open>cylinderScene\<close>, the sphere in \<open>sphereScene\<close>. \<open>exampleGenerate\<close> is one possible
  result of the library's constructors.
\<close>

definition cylinderScene :: SceneState where
  "cylinderScene = \<lparr>objects =
       [\<lparr>o_id = ''a'', o_object = 0, o_name = ''Cylinder'', o_visible = True\<rparr>,
        \<lparr>o_id = ''b'', o_object = 1, o_name = ''Sphere'', o_visible = True\<rparr>],
     selectedObject = Some 0, transformMode = None, editMode = Some vertex,
     selectedElements = \<lparr>vertices = [0, 2], edges = [1], faces = []\<rparr>,
     draggedVertex = None, draggedEdge = None,
     heap = (\<lambda>_. Object3D)
        (0 := Mesh \<lparr>kind = CylinderGeometry 1 1 2 32 1 False 0 6,
             attributes_position = [Vector3 0 0 0, Vector3 1 0 0, Vector3 0 1 0], index = Some [0, 1, 2]\<rparr>,
         1 := Mesh \<lparr>kind = SphereGeometry 1 32 16 0 6 0 3,
             attributes_position = [Vector3 1 1 1, Vector3 2 1 1, Vector3 1 2 1], index = Some [0, 1, 2]\<rparr>)\<rparr>"

definition sphereScene :: SceneState where
  "sphereScene = setSelectedObject (Some 1) cylinderScene"

definition exampleGenerate :: "GeometryKind \<Rightarrow> BufferAttribute \<times> nat list option" where
  "exampleGenerate k = ([Vector3 0 0 0, Vector3 0 1 0, Vector3 1 0 0, Vector3 1 1 0], Some [0, 1, 2, 1, 2, 3])"

text \<open>The triangle scene with an edge drag open on the side from vertex 0 to vertex 1.\<close>

definition draggingEdge :: SceneState where
  "draggingEdge = idleState\<lparr>selectedElements := noElements\<lparr>edges := [0, 0]\<rparr>,
     draggedEdge := Some \<lparr>e_indices = [(0, 1)],
       e_positions = [Vector3 0 0 0, Vector3 1 0 0],
       e_initialPositions = [Vector3 0 0 0, Vector3 1 0 0],
       e_edgeIndices = [0, 0]\<rparr>\<rparr>"


text \<open>
  A quad of four vertices with the index list of its two triangles, and a mesh of two
  triangles whose vertices 3 and 4 lie where vertices 0 and 1 do.
\<close>

definition quadScene :: SceneState where
  "quadScene = \<lparr>objects = [\<lparr>o_id = ''q'', o_object = 0, o_name = ''Plane'', o_visible = True\<rparr>],
     selectedObject = Some 0, transformMode = None, editMode = Some edge,
     selectedElements = noElements, draggedVertex = None, draggedEdge = None,
     heap = (\<lambda>_. Object3D)(0 := Mesh \<lparr>kind = OtherGeometry,
        attributes_position = [Vector3 0 0 0, Vector3 1 0 0, Vector3 1 1 0, Vector3 0 1 0],
        index = Some [0, 1, 2, 0, 2, 3]\<rparr>)\<rparr>"

definition seamScene :: SceneState where
  "seamScene = \<lparr>objects = [\<lparr>o_id = ''s'', o_object = 0, o_name = ''Seam'', o_visible = True\<rparr>],
     selectedObject = Some 0, transformMode = None, editMode = Some edge,
     selectedElements = noElements, draggedVertex = None, draggedEdge = None,
     heap = (\<lambda>_. Object3D)(0 := Mesh \<lparr>kind = OtherGeometry,
        attributes_position = [Vector3 0 0 0, Vector3 1 0 0, Vector3 0 1 0,
                               Vector3 0 0 0, Vector3 1 0 0, Vector3 0 0 1],
        index = Some [0, 1, 2, 3, 4, 5]\<rparr>)\<rparr>"

text \<open>A mesh whose vertices 0, 2 and 4 lie at one corner.\<close>

definition cornerScene :: SceneState where
  "cornerScene = \<lparr>objects = [\<lparr>o_id = ''c'', o_object = 0, o_name = ''Corner'', o_visible = True\<rparr>],
     selectedObject = Some 0, transformMode = None, editMode = Some vertex,
     selectedElements = noElements, draggedVertex = None, draggedEdge = None,
     heap = (\<lambda>_. Object3D)(0 := Mesh \<lparr>kind = OtherGeometry,
        attributes_position = [Vector3 1 1 1, Vector3 0 0 0, Vector3 1 1 1, Vector3 1 0 0, Vector3 1 1 1],
        index = None\<rparr>)\<rparr>"

text \<open>The corner mesh after a vertex drag is started on vertex 2.\<close>

definition cornerDragging :: SceneState where
  "cornerDragging = startVertexDrag 2 (Vector3 1 1 1) cornerScene"

text \<open>The three objects with no drag open.\<close>

definition twoMeshes :: SceneState where
  "twoMeshes = endVertexDrag threeObjects"

section \<open>Properties\<close>

subsection \<open>Reading the selected mesh\<close>

lemma selectedMesh_Some:
  "selectedMesh s = Some (r, g) \<longleftrightarrow> selectedObject s = Some r \<and> heap s r = Mesh g"
  by (auto simp: selectedMesh_def split: option.splits Object3D.splits)

lemma vertexAt_eq:
  "vertexAt positions i = (if i < length positions then positions ! i else Vector3 0 0 0)"
  by (simp add: vertexAt_def newVector3_def getX_def getY_def getZ_def count_def)

text \<open>The tolerance test on concrete points, decided on the squared distance.\<close>

lemma sqrt_tolerance: "sqrt (1 / 100000000) = 1 / 10000"
proof -
  have "sqrt ((1 / 10000)\<^sup>2) = \<bar>1 / 10000 :: real\<bar>" by (rule real_sqrt_abs)
  then show ?thesis by (simp add: power2_eq_square)
qed

lemma distanceTo_less_epsilon:
  "distanceTo a b < epsilon \<longleftrightarrow> distanceToSquared a b < 1 / 100000000"
proof -
  have "distanceTo a b < epsilon \<longleftrightarrow> sqrt (distanceToSquared a b) < sqrt (1 / 100000000)"
    by (simp only: distanceTo_def epsilon_def sqrt_tolerance)
  then show ?thesis by (simp only: real_sqrt_less_iff)
qed

subsection \<open>Rounding to 32-bit floats\<close>

lemma roundHalfEven_of_int: "roundHalfEven (of_int n) = n"
  by (simp add: roundHalfEven_def)

lemma floor_log2_binade:
  assumes "2 powi e \<le> \<bar>x\<bar>" and "\<bar>x\<bar> < 2 powi (e + 1)"
  shows "\<lfloor>log 2 \<bar>x\<bar>\<rfloor> = e"
proof -
  have pos: "0 < \<bar>x\<bar>"
    using assms(1) by (smt (verit) zero_less_power_int)
  have p: "(2::real) powr real_of_int k = 2 powi k" for k
    by (rule powr_real_of_int') simp_all
  have two: "1 < (2::real)" by simp
  have "(2::real) powr real_of_int e \<le> \<bar>x\<bar> \<and> \<bar>x\<bar> < 2 powr real_of_int (e + 1)"
    using assms by (simp only: p)
  then show ?thesis
    by (rule iffD2 [OF floor_log_eq_powr_iff [OF pos two]])
qed

lemma fround_binade:
  assumes "2 powi e \<le> \<bar>x\<bar>" and "\<bar>x\<bar> < 2 powi (e + 1)"
  shows "fround x = of_int (roundHalfEven (x / 2 powi max (e - 23) (- 149))) * 2 powi max (e - 23) (- 149)"
proof -
  have "0 < \<bar>x\<bar>"
    using assms(1) by (smt (verit) zero_less_power_int)
  then have "x \<noteq> 0" by simp
  then show ?thesis
    by (simp add: fround_def ulpExponent_def floor_log2_binade [OF assms])
qed


lemma fround_tenth: "fround (1 / 10) = 13421773 / 134217728"
  using fround_binade [of "-4" "1 / 10"]
  by (simp add: power_int_minus roundHalfEven_def)


lemma fround_representable:
  assumes m: "\<bar>m\<bar> < 2 ^ 24" and j: "- 149 \<le> j"
  shows "fround (of_int m * 2 powi j) = of_int m * 2 powi j"
proof (cases "m = 0")
  case True
  then show ?thesis by (simp add: fround_def)
next
  case False
  let ?x = "of_int m * 2 powi j :: real"
  let ?k = "ulpExponent ?x"
  have x0: "?x \<noteq> 0" using False by simp
  have pos: "0 < \<bar>?x\<bar>" using x0 by simp
  have "\<bar>?x\<bar> = of_int \<bar>m\<bar> * 2 powi j"
    by (simp add: abs_mult)
  also have "\<dots> < 2 ^ 24 * 2 powi j"
  proof -
    have "(of_int \<bar>m\<bar> :: real) < of_int (2 ^ 24)" using m by (simp only: of_int_less_iff)
    then show ?thesis by (simp add: mult_strict_right_mono)
  qed
  also have "\<dots> = 2 powi (24 + j)"
    by (simp add: power_int_add)
  finally have "\<bar>?x\<bar> < 2 powi (24 + j)" .
  moreover have "(2::real) powr real_of_int (24 + j) = 2 powi (24 + j)"
    by (rule powr_real_of_int') simp_all
  ultimately have "\<bar>?x\<bar> < 2 powr real_of_int (24 + j)"
    by (simp only:)
  then have "log 2 \<bar>?x\<bar> < real_of_int (24 + j)"
    using pos by (simp add: log_less_iff)
  then have "\<lfloor>log 2 \<bar>?x\<bar>\<rfloor> < 24 + j"
    by (simp add: floor_less_iff)
  with j have "?k \<le> j"
    by (simp add: ulpExponent_def)
  define k where "k = ?k"
  define x where "x = ?x"
  have kj: "k \<le> j" using \<open>?k \<le> j\<close> by (simp add: k_def)
  define n where "n = m * 2 ^ nat (j - k)"
  have "(2::real) powi j = 2 ^ nat (j - k) * 2 powi k"
  proof -
    have "j = int (nat (j - k)) + k" using kj by simp
    then have "(2::real) powi j = 2 powi (int (nat (j - k)) + k)" by (rule arg_cong)
    also have "\<dots> = 2 powi int (nat (j - k)) * 2 powi k"
      by (rule power_int_add) simp
    also have "(2::real) powi int (nat (j - k)) = 2 ^ nat (j - k)"
      by (rule power_int_of_nat)
    finally show ?thesis .
  qed
  then have split: "x = of_int n * 2 powi k"
    by (simp add: n_def x_def)
  then have "x / 2 powi k = of_int n" by simp
  then have "roundHalfEven (x / 2 powi k) = n"
    by (simp only: roundHalfEven_of_int)
  then have "of_int (roundHalfEven (x / 2 powi k)) * 2 powi k = x"
    using split by simp
  moreover have "fround x = of_int (roundHalfEven (x / 2 powi k)) * 2 powi k"
    using x0 unfolding fround_def k_def x_def by simp
  ultimately show ?thesis by (simp add: x_def)
qed

lemma fround_fifth: "fround (1 / 5) = 13421773 / 67108864"
  using fround_binade [of "-3" "1 / 5"]
  by (simp add: power_int_minus roundHalfEven_def)

lemma fround_three_tenths: "fround (3 / 10) = 5033165 / 16777216"
  using fround_binade [of "-2" "3 / 10"]
  by (simp add: power_int_minus roundHalfEven_def)

lemma fround_of_int: "\<bar>m\<bar> < 2 ^ 24 \<Longrightarrow> fround (of_int m) = of_int m"
  using fround_representable [of m 0] by simp

lemma fround_2: "fround 2 = 2"
  using fround_of_int [of 2] by simp

lemma fround_3: "fround 3 = 3"
  using fround_of_int [of 3] by simp

subsection \<open>The coincidence group of a vertex\<close>


lemma overlappingIndices_valid:
  "i < length positions \<Longrightarrow>
     overlappingIndices positions i =
       filter (\<lambda>j. distanceTo (positions ! j) (positions ! i) < epsilon) [0..<length positions]"
proof -
  assume i: "i < length positions"
  have "filter (\<lambda>j. distanceTo (vertexAt positions j) (positions ! i) < epsilon) [0..<length positions]
      = filter (\<lambda>j. distanceTo (positions ! j) (positions ! i) < epsilon) [0..<length positions]"
    by (rule filter_cong) (simp_all add: vertexAt_eq)
  with i show ?thesis by (simp add: overlappingIndices_def vertexAt_eq count_def)
qed

text \<open>The corner scene: its mesh, and the session a drag on vertex 2 opens.\<close>

lemma cornerScene_mesh:
  "selectedObject cornerScene = Some 0"
  "heap cornerScene 0 = Mesh \<lparr>kind = OtherGeometry,
        attributes_position = [Vector3 1 1 1, Vector3 0 0 0, Vector3 1 1 1, Vector3 1 0 0, Vector3 1 1 1],
        index = None\<rparr>"
  by (simp_all add: cornerScene_def)

lemma cornerDragging_session:
  "draggedVertex cornerDragging
     = Some \<lparr>v_indices = [0, 2, 4], v_position = Vector3 1 1 1, v_initialPosition = Vector3 1 1 1\<rparr>"
  "selectedObject cornerDragging = Some 0"
  "heap cornerDragging 0 = heap cornerScene 0"
  by (simp_all add: cornerDragging_def startVertexDrag_def cornerScene_def selectedMesh_def
      overlappingIndices_valid upt_rec distanceTo_less_epsilon distanceToSquared_def Let_def)

subsection \<open>Vertex drag: every grouped vertex moves to the target\<close>

lemma length_setXYZ: "length (setXYZ positions i x y z) = length positions"
  by (simp add: setXYZ_def)

lemma nth_setXYZ:
  "k < length positions \<Longrightarrow>
     setXYZ positions i x y z ! k =
       (if k = i then Vector3 (fround x) (fround y) (fround z) else positions ! k)"
  by (simp add: setXYZ_def count_def)

lemma length_setEach: "length (setEach is t positions) = length positions"
  by (induction "is" arbitrary: positions) (simp_all add: length_setXYZ)

lemma nth_setEach:
  "k < length positions \<Longrightarrow>
     setEach is t positions ! k = (if k \<in> set is then stored t else positions ! k)"
proof (induction "is" arbitrary: positions)
  case Nil
  then show ?case by simp
next
  case (Cons i rest)
  then show ?case by (simp add: length_setXYZ nth_setXYZ stored_def)
qed

lemma positionsOf_updateVertexDrag:
  assumes "draggedVertex s = Some d" and "selectedObject s = Some r" and "heap s r = Mesh g"
  shows "positionsOf (updateVertexDrag t s) r = setEach (v_indices d) t (positionsOf s r)"
  using assms by (simp add: updateVertexDrag_def selectedMesh_def writePositions_def positionsOf_def)

text \<open>
  C1 as stated fails. The buffer stores 32-bit floats: with the group of vertices 0, 2
  and 4 dragged to \<open>(0.1, 0.2, 0.3)\<close>, the entry of vertex 0 is the rounded point, not
  the target.
\<close>

theorem stored_target_is_rounded_counterexample:
  "vertexAt (positionsOf (updateVertexDrag (Vector3 (1 / 10) (1 / 5) (3 / 10)) cornerDragging) 0) 0
     = Vector3 (13421773 / 134217728) (13421773 / 67108864) (5033165 / 16777216)
   \<and> vertexAt (positionsOf (updateVertexDrag (Vector3 (1 / 10) (1 / 5) (3 / 10)) cornerDragging) 0) 0
     \<noteq> Vector3 (1 / 10) (1 / 5) (3 / 10)"
proof -
  have "positionsOf (updateVertexDrag (Vector3 (1 / 10) (1 / 5) (3 / 10)) cornerDragging) 0
      = setEach [0, 2, 4] (Vector3 (1 / 10) (1 / 5) (3 / 10)) (positionsOf cornerDragging 0)"
    using positionsOf_updateVertexDrag [OF cornerDragging_session(1,2)] cornerDragging_session(3)
      cornerScene_mesh(2)
    by simp
  moreover have "positionsOf cornerDragging 0
      = [Vector3 1 1 1, Vector3 0 0 0, Vector3 1 1 1, Vector3 1 0 0, Vector3 1 1 1]"
    by (simp add: positionsOf_def cornerDragging_session(3) cornerScene_mesh(2))
  ultimately show ?thesis
    by (simp add: vertexAt_eq length_setEach nth_setEach stored_def
        fround_tenth fround_fifth fround_three_tenths del: setEach.simps)
qed

text \<open>
  C1, amended. With a vertex-drag session open and a mesh selected,
  \<^verbatim>\<open>updateVertexDrag(t)\<close> keeps the size of the selected mesh's position buffer and sets
  the entry of every index of the session's group that the buffer has to the stored
  form of \<open>t\<close>, each coordinate rounded to a 32-bit float: one point for the whole
  group, and \<open>t\<close> itself when its coordinates are 32-bit floats. Every other entry
  stays as it was.
\<close>

theorem updateVertexDrag_collapses_group:
  assumes "draggedVertex s = Some d" and "selectedObject s = Some r" and "heap s r = Mesh g"
  shows "count (positionsOf (updateVertexDrag t s) r) = count (positionsOf s r)
       \<and> (\<forall>i \<in> set (v_indices d). i < count (positionsOf s r) \<longrightarrow>
              vertexAt (positionsOf (updateVertexDrag t s) r) i
                = Vector3 (fround (vx t)) (fround (vy t)) (fround (vz t)))
       \<and> (fround (vx t) = vx t \<and> fround (vy t) = vy t \<and> fround (vz t) = vz t \<longrightarrow>
            (\<forall>i \<in> set (v_indices d). i < count (positionsOf s r) \<longrightarrow>
               vertexAt (positionsOf (updateVertexDrag t s) r) i = t))
       \<and> (\<forall>i. i \<notin> set (v_indices d) \<longrightarrow>
              vertexAt (positionsOf (updateVertexDrag t s) r) i = vertexAt (positionsOf s r) i)"
  by (simp add: positionsOf_updateVertexDrag [OF assms] vertexAt_eq count_def length_setEach
      nth_setEach stored_def)

theorem updateVertexDrag_collapses_group_witness:
  "draggedVertex cornerDragging
     = Some \<lparr>v_indices = [0, 2, 4], v_position = Vector3 1 1 1, v_initialPosition = Vector3 1 1 1\<rparr>
   \<and> selectedObject cornerDragging = Some 0
   \<and> positionsOf cornerDragging 0
       = [Vector3 1 1 1, Vector3 0 0 0, Vector3 1 1 1, Vector3 1 0 0, Vector3 1 1 1]
   \<and> fround 2 = 2
   \<and> vertexAt (positionsOf (updateVertexDrag (Vector3 2 2 2) cornerDragging) 0) 0 = Vector3 2 2 2
   \<and> vertexAt (positionsOf (updateVertexDrag (Vector3 2 2 2) cornerDragging) 0) 2 = Vector3 2 2 2
   \<and> vertexAt (positionsOf (updateVertexDrag (Vector3 2 2 2) cornerDragging) 0) 4 = Vector3 2 2 2
   \<and> vertexAt (positionsOf (updateVertexDrag (Vector3 2 2 2) cornerDragging) 0) 1 = Vector3 0 0 0
   \<and> vertexAt (positionsOf (updateVertexDrag (Vector3 2 2 2) cornerDragging) 0) 3 = Vector3 1 0 0"
proof -
  have buf: "positionsOf cornerDragging 0
      = [Vector3 1 1 1, Vector3 0 0 0, Vector3 1 1 1, Vector3 1 0 0, Vector3 1 1 1]"
    by (simp add: positionsOf_def cornerDragging_session(3) cornerScene_mesh(2))
  have mesh: "heap cornerDragging 0 = Mesh \<lparr>kind = OtherGeometry,
        attributes_position = [Vector3 1 1 1, Vector3 0 0 0, Vector3 1 1 1, Vector3 1 0 0, Vector3 1 1 1],
        index = None\<rparr>"
    by (simp add: cornerDragging_session(3) cornerScene_mesh(2))
  note moved = updateVertexDrag_collapses_group
    [OF cornerDragging_session(1,2) mesh, of "Vector3 2 2 2"]
  have group: "vertexAt (positionsOf (updateVertexDrag (Vector3 2 2 2) cornerDragging) 0) i = Vector3 2 2 2"
    if "i \<in> {0, 2, 4}" for i
    using moved that by (auto simp add: buf count_def fround_2)
  have rest: "vertexAt (positionsOf (updateVertexDrag (Vector3 2 2 2) cornerDragging) 0) i
      = vertexAt [Vector3 1 1 1, Vector3 0 0 0, Vector3 1 1 1, Vector3 1 0 0, Vector3 1 1 1] i"
    if "i \<notin> {0, 2, 4}" for i
    using moved that by (simp add: buf)
  have
    "vertexAt (positionsOf (updateVertexDrag (Vector3 2 2 2) cornerDragging) 0) 0 = Vector3 2 2 2"
    "vertexAt (positionsOf (updateVertexDrag (Vector3 2 2 2) cornerDragging) 0) 2 = Vector3 2 2 2"
    "vertexAt (positionsOf (updateVertexDrag (Vector3 2 2 2) cornerDragging) 0) 4 = Vector3 2 2 2"
    "vertexAt (positionsOf (updateVertexDrag (Vector3 2 2 2) cornerDragging) 0) 1 = Vector3 0 0 0"
    "vertexAt (positionsOf (updateVertexDrag (Vector3 2 2 2) cornerDragging) 0) 3 = Vector3 1 0 0"
    using group [of 0] group [of 2] group [of 4] rest [of 1] rest [of 3]
    by (simp_all add: vertexAt_eq)
  with cornerDragging_session(1,2) buf fround_2 show ?thesis by simp
qed

subsection \<open>Vertex drag: the coincidence group\<close>



subsection \<open>Edge drag: writes do not accumulate\<close>

lemma setXYZ_update: "setXYZ positions i (vx p) (vy p) (vz p) = positions[i := stored p]"
  by (simp add: setXYZ_def stored_def count_def list_update_beyond)

lemma moveEdges_writes:
  "moveEdges pairs k snapshots offset positions =
     (applyWrites (edgeWrites pairs k snapshots offset) positions, snapshotsCover pairs k snapshots)"
proof (induction pairs arbitrary: k positions)
  case Nil
  then show ?case by simp
next
  case (Cons e rest)
  obtain v1 v2 where e: "e = (v1, v2)" by (cases e)
  show ?case
    unfolding e by (auto simp: Cons.IH elementAt_def Let_def)
qed

lemma edgeWrites_indices:
  "map fst (edgeWrites pairs k snapshots offset) = map fst (edgeWrites pairs k snapshots offset')"
proof (induction pairs arbitrary: k)
  case Nil
  then show ?case by simp
next
  case (Cons e rest)
  obtain v1 v2 where e: "e = (v1, v2)" by (cases e)
  show ?case
    unfolding e using Cons.IH by (simp split: option.splits)
qed

lemma length_applyWrites: "length (applyWrites ws positions) = length positions"
  by (induction ws arbitrary: positions) (auto simp: setXYZ_update)

lemma nth_applyWrites:
  "k < length positions \<Longrightarrow>
     applyWrites ws positions ! k =
       (case map_of (rev ws) k of Some p \<Rightarrow> stored p | None \<Rightarrow> positions ! k)"
proof (induction ws arbitrary: positions)
  case Nil
  then show ?case by simp
next
  case (Cons w ws)
  obtain i p where w: "w = (i, p)" by (cases w)
  from Cons.prems have "k < length (positions[i := stored p])" by simp
  from Cons.IH [OF this] Cons.prems show ?case
    unfolding w by (simp add: setXYZ_update map_add_def split: option.splits)
qed

lemma map_of_rev_None: "map_of (rev ws) k = None \<longleftrightarrow> k \<notin> set (map fst ws)"
  by (simp add: map_of_eq_None_iff)

lemma applyWrites_overwrite:
  assumes "map fst ws = map fst ws'"
  shows "applyWrites ws (applyWrites ws' positions) = applyWrites ws positions"
proof (rule nth_equalityI)
  show "length (applyWrites ws (applyWrites ws' positions)) = length (applyWrites ws positions)"
    by (simp add: length_applyWrites)
next
  fix k
  assume "k < length (applyWrites ws (applyWrites ws' positions))"
  then have k: "k < length positions" by (simp add: length_applyWrites)
  show "applyWrites ws (applyWrites ws' positions) ! k = applyWrites ws positions ! k"
  proof (cases "map_of (rev ws) k")
    case None
    then have "map_of (rev ws') k = None"
      using assms by (simp add: map_of_rev_None)
    with None k show ?thesis by (simp add: nth_applyWrites length_applyWrites)
  next
    case (Some p)
    with k show ?thesis by (simp add: nth_applyWrites length_applyWrites)
  qed
qed

lemma moveEdges_overwrite:
  "moveEdges pairs k snapshots offset (fst (moveEdges pairs k snapshots offset' positions)) =
     moveEdges pairs k snapshots offset positions"
  by (simp add: moveEdges_writes applyWrites_overwrite [OF edgeWrites_indices])


lemma selectedMesh_writePositions:
  "selectedMesh s = Some (r, g) \<Longrightarrow>
     selectedMesh (writePositions r g positions s) = Some (r, g\<lparr>attributes_position := positions\<rparr>)"
  by (simp add: selectedMesh_Some writePositions_def)

lemma writePositions_twice:
  "writePositions r (g\<lparr>attributes_position := positions'\<rparr>) positions (writePositions r g positions' s) =
     writePositions r g positions s"
  by (simp add: writePositions_def)

lemma updateEdgeDrag_after_update:
  "updateEdgeDrag p (after (updateEdgeDrag q s)) = updateEdgeDrag p s"
proof (cases "draggedEdge s")
  case None
  then show ?thesis by (simp add: updateEdgeDrag_def)
next
  case (Some d)
  note session = Some
  show ?thesis
  proof (cases "selectedMesh s")
    case None
    with session show ?thesis by (simp add: updateEdgeDrag_def)
  next
    case (Some m)
    obtain r g where m: "m = (r, g)" by (cases m)
    note mesh = Some [unfolded m]
    show ?thesis
    proof (cases "elementAt (e_initialPositions d) 0")
      case None
      with session mesh show ?thesis by (simp add: updateEdgeDrag_def)
    next
      case (Some p0)
      let ?run = "\<lambda>t positions. moveEdges (e_indices d) 0 (e_positions d) (sub t p0) positions"
      let ?buf = "attributes_position g"
      let ?s1 = "writePositions r g (fst (?run q ?buf)) s"
      have first: "after (updateEdgeDrag q s) = ?s1"
        using session mesh Some by (simp add: updateEdgeDrag_def case_prod_unfold Let_def)
      have d1: "draggedEdge ?s1 = Some d"
        using session by (simp add: writePositions_def)
      have m1: "selectedMesh ?s1 = Some (r, g\<lparr>attributes_position := fst (?run q ?buf)\<rparr>)"
        using mesh by (rule selectedMesh_writePositions)
      have "updateEdgeDrag p ?s1 =
          (if snd (?run p ?buf) then Returned (writePositions r g (fst (?run p ?buf)) s)
           else TypeError (writePositions r g (fst (?run p ?buf)) s))"
        using d1 m1 Some
        by (simp add: updateEdgeDrag_def case_prod_unfold Let_def moveEdges_overwrite writePositions_twice)
      also have "\<dots> = updateEdgeDrag p s"
        using session mesh Some by (simp add: updateEdgeDrag_def case_prod_unfold Let_def)
      finally show ?thesis by (simp add: first)
    qed
  qed
qed

text \<open>
  C3. Applying a target point \<open>p\<close> with \<^verbatim>\<open>updateEdgeDrag\<close> a second time ends as the
  first application did and leaves the store and every position buffer as they were
  after the first: the session is not changed by an update, so the offset is taken
  from the same initial snapshot each time. The same holds after an update with any
  other point \<open>q\<close>: nothing of it remains once \<open>p\<close> is applied.
\<close>

theorem updateEdgeDrag_idempotent:
  "updateEdgeDrag p (after (updateEdgeDrag p s)) = updateEdgeDrag p s
   \<and> after (updateEdgeDrag p (after (updateEdgeDrag p s))) = after (updateEdgeDrag p s)
   \<and> updateEdgeDrag p (after (updateEdgeDrag q s)) = updateEdgeDrag p s
   \<and> draggedEdge (after (updateEdgeDrag p s)) = draggedEdge s"
proof -
  have "draggedEdge (after (updateEdgeDrag p s)) = draggedEdge s"
    by (simp add: updateEdgeDrag_def writePositions_def case_prod_unfold Let_def
        split: option.splits)
  then show ?thesis by (simp add: updateEdgeDrag_after_update)
qed

subsection \<open>What an edge drag captures\<close>

lemma scanSides_Scanned:
  "scanSides vi ps buf sides oe ap ei = Scanned oe' ap' ei' \<Longrightarrow>
     oe' = oe @ filter (sideMatched vi ps buf) sides
   \<and> ap' = ap @ endpointsOf buf (filter (sideMatched vi ps buf) sides)
   \<and> ei' = ei @ [length oe..<length oe']"
proof (induction sides arbitrary: oe ap ei)
  case Nil
  then show ?case by (simp add: endpointsOf_def)
next
  case (Cons side rest)
  obtain a b where side: "side = (a, b)" by (cases side)
  show ?case
  proof (cases "sideMatches vi ps a b (vertexAt buf a) (vertexAt buf b)")
    case None
    with Cons.prems show ?thesis by (simp add: side)
  next
    case (Some m)
    show ?thesis
    proof (cases m)
      case False
      with Some Cons.prems have "scanSides vi ps buf rest oe ap ei = Scanned oe' ap' ei'"
        by (simp add: side)
      from Cons.IH [OF this] Some False show ?thesis
        by (simp add: side sideMatched_def)
    next
      case True
      with Some Cons.prems have
        rec: "scanSides vi ps buf rest (oe @ [(a, b)]) (ap @ [vertexAt buf a, vertexAt buf b])
                (ei @ [length oe]) = Scanned oe' ap' ei'"
        by (simp add: side)
      have m: "sideMatched vi ps buf (a, b)"
        using Some True by (simp add: sideMatched_def)
      note ih = Cons.IH [OF rec]
      have oe': "oe' = oe @ (a, b) # filter (sideMatched vi ps buf) rest"
        using ih by simp
      then have "length oe < length oe'" by simp
      then have "[length oe..<length oe'] = length oe # [Suc (length oe)..<length oe']"
        by (simp add: upt_conv_Cons)
      with ih m show ?thesis
        by (simp add: side endpointsOf_def)
    qed
  qed
qed

lemma length_endpointsOf: "length (endpointsOf buf pairs) = 2 * length pairs"
  by (induction pairs) (simp_all add: endpointsOf_def)


lemma startEdgeDrag_Returned:
  assumes "startEdgeDrag vi ps ei s0 = Returned s1"
    and "selectedObject s0 = Some r0" and "heap s0 r0 = Mesh g0"
  shows "\<exists>d. draggedEdge s1 = Some d
      \<and> e_indices d = filter (sideMatched vi ps (positionsOf s0 r0)) (scannedSides (count (positionsOf s0 r0)))
      \<and> e_positions d = endpointsOf (positionsOf s0 r0) (e_indices d)
      \<and> e_initialPositions d = ps
      \<and> e_edgeIndices d = ei # [0..<length (e_indices d)]
      \<and> edges (selectedElements s1) = e_edgeIndices d
      \<and> heap s1 = heap s0 \<and> selectedObject s1 = selectedObject s0"
proof -
  let ?buf = "attributes_position g0"
  have buf: "positionsOf s0 r0 = ?buf" using assms(3) by (simp add: positionsOf_def)
  have mesh: "selectedMesh s0 = Some (r0, g0)" using assms(2,3) by (simp add: selectedMesh_def)
  show ?thesis
  proof (cases "scanSides vi ps ?buf (scannedSides (count ?buf)) [] [] [ei]")
    case (Scanned oe ap eis)
    from scanSides_Scanned [OF this] have
      "oe = filter (sideMatched vi ps ?buf) (scannedSides (count ?buf))"
      "ap = endpointsOf ?buf oe"
      "eis = ei # [0..<length oe]"
      by simp_all
    moreover from assms(1) mesh Scanned have
      "s1 = s0\<lparr>selectedElements := (selectedElements s0)\<lparr>edges := eis\<rparr>,
               draggedEdge := Some \<lparr>e_indices = oe, e_positions = ap,
                                    e_initialPositions = ps, e_edgeIndices = eis\<rparr>\<rparr>"
      by (simp add: startEdgeDrag_def)
    ultimately show ?thesis by (simp add: buf count_def)
  next
    case ScanThrows
    with assms(1) mesh show ?thesis by (simp add: startEdgeDrag_def)
  qed
qed

text \<open>With two positions given, \<^verbatim>\<open>startEdgeDrag\<close> on a mesh returns.\<close>

lemma sideMatches_defined:
  assumes "2 \<le> length ps"
  shows "\<exists>m. sideMatches vi ps a b v1 v2 = Some m"
proof -
  from assms have "0 < length ps" "1 < length ps" by linarith+
  then have "elementAt ps 0 = Some (ps ! 0)" "elementAt ps 1 = Some (ps ! 1)"
    unfolding elementAt_def by simp_all
  then show ?thesis
    by (auto simp: sideMatches_def near_def split: bool.splits)
qed

lemma scanSides_returns:
  assumes "2 \<le> length ps"
  shows "\<exists>oe' ap' ei'. scanSides vi ps buf sides oe ap ei = Scanned oe' ap' ei'"
proof (induction sides arbitrary: oe ap ei)
  case Nil
  then show ?case by simp
next
  case (Cons side rest)
  obtain a b where side: "side = (a, b)" by (cases side)
  from sideMatches_defined [OF assms] obtain m where
    m: "sideMatches vi ps a b (vertexAt buf a) (vertexAt buf b) = Some m" by blast
  with Cons.IH show ?case by (cases m) (simp_all add: side)
qed

lemma startEdgeDrag_returns:
  assumes "selectedObject s = Some r" and "heap s r = Mesh g" and "2 \<le> length ps"
  shows "\<exists>s'. startEdgeDrag vi ps ei s = Returned s'"
proof -
  have mesh: "selectedMesh s = Some (r, g)" using assms(1,2) by (simp add: selectedMesh_def)
  from scanSides_returns [OF assms(3)] obtain oe' ap' ei' where
    "scanSides vi ps (attributes_position g) (scannedSides (count (attributes_position g))) [] [] [ei]
       = Scanned oe' ap' ei'" by blast
  with mesh show ?thesis by (simp add: startEdgeDrag_def)
qed

text \<open>Evaluating the tolerance test and the scan on concrete scenes.\<close>

lemma scannedSides_3: "scannedSides (Suc (Suc (Suc 0))) = [(0, 1), (1, 2), (2, 0)]"
  by (simp add: scannedSides_def triangleSides_def upt_rec)

lemma startEdgeDrag_idleState:
  "startEdgeDrag [0, 1] [Vector3 0 0 0, Vector3 1 0 0] 0 idleState = Returned draggingEdge"
  by (simp add: startEdgeDrag_def idleState_def draggingEdge_def selectedMesh_def count_def Let_def
      scannedSides_3 sideMatches_def includes'_def near_def elementAt_def vertexAt_eq
      distanceTo_less_epsilon distanceToSquared_def noElements_def)


lemma scannedSides_4:
  "scannedSides (Suc (Suc (Suc (Suc 0)))) = [(0, 1), (1, 2), (2, 0), (3, 4), (4, 5), (5, 3)]"
  by (simp add: scannedSides_def triangleSides_def upt_rec)

lemma scannedSides_6:
  "scannedSides (Suc (Suc (Suc (Suc (Suc (Suc 0)))))) = [(0, 1), (1, 2), (2, 0), (3, 4), (4, 5), (5, 3)]"
  by (simp add: scannedSides_def triangleSides_def upt_rec)

subsection \<open>Edge drag: every pair is translated by one offset\<close>










subsection \<open>Changing the selected object during a drag\<close>

text \<open>
  C6 as stated fails. A vertex drag is started on the second mesh, the first mesh is
  selected, and the next \<^verbatim>\<open>updateVertexDrag\<close> writes the target point into the buffer
  of the first mesh at the session's index.
\<close>

theorem switched_target_is_written_counterexample:
  "draggedVertex (startVertexDrag 0 (Vector3 1 1 1) twoMeshes)
     = Some \<lparr>v_indices = [0], v_position = Vector3 1 1 1, v_initialPosition = Vector3 1 1 1\<rparr>
   \<and> positionsOf (setSelectedObject (Some 0) (startVertexDrag 0 (Vector3 1 1 1) twoMeshes)) 0
     = [Vector3 0 0 0, Vector3 1 0 0, Vector3 0 1 0]
   \<and> positionsOf (updateVertexDrag (Vector3 2 2 2)
        (setSelectedObject (Some 0) (startVertexDrag 0 (Vector3 1 1 1) twoMeshes))) 0
     = [Vector3 2 2 2, Vector3 1 0 0, Vector3 0 1 0]"
proof -
  let ?g = "\<lparr>kind = OtherGeometry,
             attributes_position = [Vector3 0 0 0, Vector3 1 0 0, Vector3 0 1 0], index = None\<rparr>"
  let ?s = "setSelectedObject (Some 0) (startVertexDrag 0 (Vector3 1 1 1) twoMeshes)"
  have started: "draggedVertex (startVertexDrag 0 (Vector3 1 1 1) twoMeshes)
     = Some \<lparr>v_indices = [0], v_position = Vector3 1 1 1, v_initialPosition = Vector3 1 1 1\<rparr>"
    by (simp add: twoMeshes_def endVertexDrag_def threeObjects_def startVertexDrag_def
        selectedMesh_def overlappingIndices_valid upt_rec distanceTo_less_epsilon
        distanceToSquared_def Let_def)
  then have session: "draggedVertex ?s
     = Some \<lparr>v_indices = [0], v_position = Vector3 1 1 1, v_initialPosition = Vector3 1 1 1\<rparr>"
    by (simp add: setSelectedObject_def)
  have sel: "selectedObject ?s = Some 0"
    by (simp add: setSelectedObject_def)
  have mesh: "heap ?s 0 = Mesh ?g"
    by (simp add: twoMeshes_def endVertexDrag_def threeObjects_def startVertexDrag_def
        setSelectedObject_def selectedMesh_def Let_def)
  have buf: "positionsOf ?s 0 = [Vector3 0 0 0, Vector3 1 0 0, Vector3 0 1 0]"
    by (simp add: positionsOf_def mesh)
  from positionsOf_updateVertexDrag [OF session sel mesh, of "Vector3 2 2 2"]
  have "positionsOf (updateVertexDrag (Vector3 2 2 2) ?s) 0
     = [Vector3 2 2 2, Vector3 1 0 0, Vector3 0 1 0]"
    by (simp add: buf setXYZ_def count_def fround_2)
  with started buf show ?thesis by simp
qed

text \<open>
  C6, amended. \<^verbatim>\<open>setSelectedObject\<close> leaves both drag sessions as they are. After it,
  \<^verbatim>\<open>updateVertexDrag\<close> and \<^verbatim>\<open>updateEdgeDrag\<close> change nothing when the new selection
  is \<^verbatim>\<open>null\<close> or no mesh; when it is a mesh and a vertex drag is open,
  \<^verbatim>\<open>updateVertexDrag(t)\<close> sets every index of the session's group that has an entry
  in the new target's buffer to the stored form of \<open>t\<close>, each coordinate rounded to a
  32-bit float.
\<close>

theorem switched_target_update:
  "draggedVertex (setSelectedObject target s) = draggedVertex s
   \<and> draggedEdge (setSelectedObject target s) = draggedEdge s
   \<and> ((\<forall>r g. target = Some r \<longrightarrow> heap s r \<noteq> Mesh g) \<longrightarrow>
        updateVertexDrag t (setSelectedObject target s) = setSelectedObject target s
        \<and> updateEdgeDrag t (setSelectedObject target s) = Returned (setSelectedObject target s))
   \<and> (\<forall>d r g. draggedVertex s = Some d \<and> target = Some r \<and> heap s r = Mesh g \<longrightarrow>
        (\<forall>i \<in> set (v_indices d). i < count (positionsOf s r) \<longrightarrow>
           vertexAt (positionsOf (updateVertexDrag t (setSelectedObject target s)) r) i
             = Vector3 (fround (vx t)) (fround (vy t)) (fround (vz t))))"
proof (intro conjI impI allI)
  show "draggedVertex (setSelectedObject target s) = draggedVertex s"
    and "draggedEdge (setSelectedObject target s) = draggedEdge s"
    by (simp_all add: setSelectedObject_def)
next
  assume other: "\<forall>r g. target = Some r \<longrightarrow> heap s r \<noteq> Mesh g"
  have "selectedMesh (setSelectedObject target s) = None"
  proof (cases target)
    case None
    then show ?thesis by (simp add: selectedMesh_def setSelectedObject_def)
  next
    case (Some r)
    with other have "heap s r = Object3D" by (cases "heap s r") simp_all
    with Some show ?thesis by (simp add: selectedMesh_def setSelectedObject_def)
  qed
  then show "updateVertexDrag t (setSelectedObject target s) = setSelectedObject target s"
    and "updateEdgeDrag t (setSelectedObject target s) = Returned (setSelectedObject target s)"
    by (simp_all add: updateVertexDrag_def updateEdgeDrag_def split: option.splits)
next
  fix d r g
  assume h: "draggedVertex s = Some d \<and> target = Some r \<and> heap s r = Mesh g"
  let ?s = "setSelectedObject target s"
  from h have "draggedVertex ?s = Some d" "selectedObject ?s = Some r" "heap ?s r = Mesh g"
    by (simp_all add: setSelectedObject_def)
  from positionsOf_updateVertexDrag [OF this, of t]
  have "positionsOf (updateVertexDrag t ?s) r = setEach (v_indices d) t (positionsOf s r)"
    by (simp add: positionsOf_def setSelectedObject_def)
  then show "\<forall>i \<in> set (v_indices d). i < count (positionsOf s r) \<longrightarrow>
           vertexAt (positionsOf (updateVertexDrag t ?s) r) i
             = Vector3 (fround (vx t)) (fround (vy t)) (fround (vz t))"
    by (simp add: vertexAt_eq count_def length_setEach nth_setEach stored_def)
qed

theorem switched_target_update_witness:
  "heap threeObjects 2 = Object3D
   \<and> updateVertexDrag (Vector3 2 2 2) (setSelectedObject (Some 2) threeObjects)
       = setSelectedObject (Some 2) threeObjects
   \<and> updateVertexDrag (Vector3 2 2 2) (setSelectedObject None threeObjects)
       = setSelectedObject None threeObjects
   \<and> draggedVertex (setSelectedObject (Some 0) threeObjects)
       = Some \<lparr>v_indices = [0], v_position = Vector3 1 1 1, v_initialPosition = Vector3 1 1 1\<rparr>
   \<and> vertexAt (positionsOf (updateVertexDrag (Vector3 2 2 2) (setSelectedObject (Some 0) threeObjects)) 0) 0
       = Vector3 2 2 2"
proof -
  have other: "heap threeObjects 2 = Object3D"
    and mesh: "heap threeObjects 0 = Mesh \<lparr>kind = OtherGeometry,
             attributes_position = [Vector3 0 0 0, Vector3 1 0 0, Vector3 0 1 0], index = None\<rparr>"
    and session: "draggedVertex threeObjects
       = Some \<lparr>v_indices = [0], v_position = Vector3 1 1 1, v_initialPosition = Vector3 1 1 1\<rparr>"
    by (simp_all add: threeObjects_def)
  note light = switched_target_update [of "Some 2" threeObjects "Vector3 2 2 2"]
  note unselected = switched_target_update [of None threeObjects "Vector3 2 2 2"]
  note cube = switched_target_update [of "Some 0" threeObjects "Vector3 2 2 2"]
  have a: "updateVertexDrag (Vector3 2 2 2) (setSelectedObject (Some 2) threeObjects)
       = setSelectedObject (Some 2) threeObjects"
    using light other by simp
  have b: "updateVertexDrag (Vector3 2 2 2) (setSelectedObject None threeObjects)
       = setSelectedObject None threeObjects"
    using unselected by simp
  have c: "draggedVertex (setSelectedObject (Some 0) threeObjects)
       = Some \<lparr>v_indices = [0], v_position = Vector3 1 1 1, v_initialPosition = Vector3 1 1 1\<rparr>"
    using cube session by simp
  have "count (positionsOf threeObjects 0) = 3"
    by (simp add: positionsOf_def mesh count_def)
  with cube session mesh
  have d: "vertexAt (positionsOf (updateVertexDrag (Vector3 2 2 2) (setSelectedObject (Some 0) threeObjects)) 0) 0
       = Vector3 2 2 2"
    by (simp add: fround_2)
  from other a b c d show ?thesis by simp
qed

subsection \<open>Updates without a session\<close>

text \<open>
  C7. In a state where neither \<^verbatim>\<open>draggedVertex\<close> nor \<^verbatim>\<open>draggedEdge\<close> is set,
  \<^verbatim>\<open>updateVertexDrag\<close> and \<^verbatim>\<open>updateEdgeDrag\<close> return the state they were given:
  the store and every position buffer are unchanged, and nothing is thrown.
\<close>

theorem no_session_noop:
  assumes "draggedVertex state = None" and "draggedEdge state = None"
  shows "updateVertexDrag position state = state \<and> updateEdgeDrag position state = Returned state"
  using assms by (simp add: updateVertexDrag_def updateEdgeDrag_def)

theorem no_session_noop_witness:
  "draggedVertex idleState = None \<and> draggedEdge idleState = None \<and>
   updateVertexDrag (Vector3 2 2 2) idleState = idleState \<and>
   updateEdgeDrag (Vector3 2 2 2) idleState = Returned idleState"
  using no_session_noop [of idleState "Vector3 2 2 2"] by (simp add: idleState_def)

subsection \<open>Resolution change\<close>

text \<open>
  C8. \<^verbatim>\<open>updateCylinderVertices\<close> and \<^verbatim>\<open>updateSphereVertices\<close> return the state they
  were given, objects included, unless the selected object is a mesh whose geometry is
  of their class. When it is, the mesh gets the geometry built from the old parameters
  with the new segment count (for the sphere, half of it as height segments), all three
  lists of selected elements become empty, and nothing else in the store changes.
\<close>

theorem resolution_change:
  "((\<forall>r g. selectedObject s = Some r \<and> heap s r = Mesh g \<longrightarrow> \<not> isCylinderGeometry (kind g)) \<longrightarrow>
      updateCylinderVertices generate n s = s)
   \<and> ((\<forall>r g. selectedObject s = Some r \<and> heap s r = Mesh g \<longrightarrow> \<not> isSphereGeometry (kind g)) \<longrightarrow>
      updateSphereVertices generate n s = s)
   \<and> (\<forall>r g a b c d e f u v.
         selectedObject s = Some r \<and> heap s r = Mesh g \<and> kind g = CylinderGeometry a b c d e f u v \<longrightarrow>
         updateCylinderVertices generate n s =
           s\<lparr>heap := (heap s)(r := Mesh (newGeometry generate (CylinderGeometry a b c n e f u v))),
              selectedElements := \<lparr>vertices = [], edges = [], faces = []\<rparr>\<rparr>)
   \<and> (\<forall>r g a b c d e u v.
         selectedObject s = Some r \<and> heap s r = Mesh g \<and> kind g = SphereGeometry a b c d e u v \<longrightarrow>
         updateSphereVertices generate n s =
           s\<lparr>heap := (heap s)(r := Mesh (newGeometry generate (SphereGeometry a n (n / 2) d e u v))),
              selectedElements := \<lparr>vertices = [], edges = [], faces = []\<rparr>\<rparr>)"
proof (intro conjI impI allI)
  assume other: "\<forall>r g. selectedObject s = Some r \<and> heap s r = Mesh g \<longrightarrow> \<not> isCylinderGeometry (kind g)"
  show "updateCylinderVertices generate n s = s"
  proof (cases "selectedMesh s")
    case None
    then show ?thesis by (simp add: updateCylinderVertices_def)
  next
    case (Some m)
    obtain r g where m: "m = (r, g)" by (cases m)
    with Some other have "\<not> isCylinderGeometry (kind g)" by (simp add: selectedMesh_Some)
    with Some m show ?thesis
      by (cases "kind g") (simp_all add: updateCylinderVertices_def)
  qed
next
  assume other: "\<forall>r g. selectedObject s = Some r \<and> heap s r = Mesh g \<longrightarrow> \<not> isSphereGeometry (kind g)"
  show "updateSphereVertices generate n s = s"
  proof (cases "selectedMesh s")
    case None
    then show ?thesis by (simp add: updateSphereVertices_def)
  next
    case (Some m)
    obtain r g where m: "m = (r, g)" by (cases m)
    with Some other have "\<not> isSphereGeometry (kind g)" by (simp add: selectedMesh_Some)
    with Some m show ?thesis
      by (cases "kind g") (simp_all add: updateSphereVertices_def)
  qed
next
  fix r g a b c d e f u v
  assume "selectedObject s = Some r \<and> heap s r = Mesh g \<and> kind g = CylinderGeometry a b c d e f u v"
  then show "updateCylinderVertices generate n s =
           s\<lparr>heap := (heap s)(r := Mesh (newGeometry generate (CylinderGeometry a b c n e f u v))),
              selectedElements := \<lparr>vertices = [], edges = [], faces = []\<rparr>\<rparr>"
    by (simp add: updateCylinderVertices_def selectedMesh_def noElements_def)
next
  fix r g a b c d e u v
  assume "selectedObject s = Some r \<and> heap s r = Mesh g \<and> kind g = SphereGeometry a b c d e u v"
  then show "updateSphereVertices generate n s =
           s\<lparr>heap := (heap s)(r := Mesh (newGeometry generate (SphereGeometry a n (n / 2) d e u v))),
              selectedElements := \<lparr>vertices = [], edges = [], faces = []\<rparr>\<rparr>"
    by (simp add: updateSphereVertices_def selectedMesh_def noElements_def)
qed

theorem resolution_change_witness:
  "updateSphereVertices exampleGenerate 8 cylinderScene = cylinderScene
   \<and> updateCylinderVertices exampleGenerate 8 sphereScene = sphereScene
   \<and> selectedElements cylinderScene = \<lparr>vertices = [0, 2], edges = [1], faces = []\<rparr>
   \<and> selectedElements (updateCylinderVertices exampleGenerate 8 cylinderScene)
       = \<lparr>vertices = [], edges = [], faces = []\<rparr>
   \<and> heap (updateCylinderVertices exampleGenerate 8 cylinderScene) 0
       = Mesh \<lparr>kind = CylinderGeometry 1 1 2 8 1 False 0 6,
               attributes_position = [Vector3 0 0 0, Vector3 0 1 0, Vector3 1 0 0, Vector3 1 1 0],
               index = Some [0, 1, 2, 1, 2, 3]\<rparr>
   \<and> heap (updateSphereVertices exampleGenerate 8 sphereScene) 1
       = Mesh \<lparr>kind = SphereGeometry 1 8 4 0 6 0 3,
               attributes_position = [Vector3 0 0 0, Vector3 0 1 0, Vector3 1 0 0, Vector3 1 1 0],
               index = Some [0, 1, 2, 1, 2, 3]\<rparr>"
proof -
  have c0: "selectedObject cylinderScene = Some 0"
    and c1: "heap cylinderScene 0 = Mesh \<lparr>kind = CylinderGeometry 1 1 2 32 1 False 0 6,
             attributes_position = [Vector3 0 0 0, Vector3 1 0 0, Vector3 0 1 0], index = Some [0, 1, 2]\<rparr>"
    and s0: "selectedObject sphereScene = Some 1"
    and s1: "heap sphereScene 1 = Mesh \<lparr>kind = SphereGeometry 1 32 16 0 6 0 3,
             attributes_position = [Vector3 1 1 1, Vector3 2 1 1, Vector3 1 2 1], index = Some [0, 1, 2]\<rparr>"
    by (simp_all add: cylinderScene_def sphereScene_def setSelectedObject_def)
  have notSphere: "\<forall>r g. selectedObject cylinderScene = Some r \<and> heap cylinderScene r = Mesh g \<longrightarrow>
      \<not> isSphereGeometry (kind g)"
    using c0 c1 by auto
  have notCylinder: "\<forall>r g. selectedObject sphereScene = Some r \<and> heap sphereScene r = Mesh g \<longrightarrow>
      \<not> isCylinderGeometry (kind g)"
    using s0 s1 by auto
  note cyl = resolution_change [of cylinderScene exampleGenerate 8]
  note sph = resolution_change [of sphereScene exampleGenerate 8]
  have a: "updateSphereVertices exampleGenerate 8 cylinderScene = cylinderScene"
    using cyl notSphere by blast
  have b: "updateCylinderVertices exampleGenerate 8 sphereScene = sphereScene"
    using sph notCylinder by blast
  have c: "updateCylinderVertices exampleGenerate 8 cylinderScene =
      cylinderScene\<lparr>heap := (heap cylinderScene)(0 := Mesh (newGeometry exampleGenerate (CylinderGeometry 1 1 2 8 1 False 0 6))),
              selectedElements := \<lparr>vertices = [], edges = [], faces = []\<rparr>\<rparr>"
    using cyl c0 c1 by auto
  have d: "updateSphereVertices exampleGenerate 8 sphereScene =
      sphereScene\<lparr>heap := (heap sphereScene)(1 := Mesh (newGeometry exampleGenerate (SphereGeometry 1 8 (8 / 2) 0 6 0 3))),
              selectedElements := \<lparr>vertices = [], edges = [], faces = []\<rparr>\<rparr>"
    using sph s0 s1 by auto
  have e: "selectedElements cylinderScene = \<lparr>vertices = [0, 2], edges = [1], faces = []\<rparr>"
    by (simp add: cylinderScene_def)
  show ?thesis
    by (simp add: a b c d e newGeometry_def exampleGenerate_def)
qed

subsection \<open>Edge drag: the clicked edge among the participants\<close>

text \<open>
  C9 as stated fails. On the quad, whose buffer has four vertices, a drag started on
  the edge from vertex 0 to vertex 3 captures the pairs \<open>(3, 4)\<close> and \<open>(5, 3)\<close>: the
  scan visits the sides \<open>(i + j, i + (j + 1) mod 3)\<close> of the position buffer, the
  clicked pair is none of them, and the vertices 4 and 5 past the end of the buffer
  are read as the origin, where vertex 0 lies. On the seam mesh, a drag started on the
  edge from vertex 3 to vertex 4 captures the pair \<open>(0, 1)\<close> first.
\<close>

theorem clicked_edge_not_first_counterexample:
  "startEdgeDrag [0, 3] [Vector3 0 0 0, Vector3 0 1 0] 4 quadScene =
     Returned (quadScene\<lparr>selectedElements := noElements\<lparr>edges := [4, 0, 1]\<rparr>,
        draggedEdge := Some \<lparr>e_indices = [(3, 4), (5, 3)],
          e_positions = [Vector3 0 1 0, Vector3 0 0 0, Vector3 0 0 0, Vector3 0 1 0],
          e_initialPositions = [Vector3 0 0 0, Vector3 0 1 0], e_edgeIndices = [4, 0, 1]\<rparr>\<rparr>)
   \<and> startEdgeDrag [3, 4] [Vector3 0 0 0, Vector3 1 0 0] 0 seamScene =
     Returned (seamScene\<lparr>selectedElements := noElements\<lparr>edges := [0, 0, 1]\<rparr>,
        draggedEdge := Some \<lparr>e_indices = [(0, 1), (3, 4)],
          e_positions = [Vector3 0 0 0, Vector3 1 0 0, Vector3 0 0 0, Vector3 1 0 0],
          e_initialPositions = [Vector3 0 0 0, Vector3 1 0 0], e_edgeIndices = [0, 0, 1]\<rparr>\<rparr>)"
proof -
  have "startEdgeDrag [0, 3] [Vector3 0 0 0, Vector3 0 1 0] 4 quadScene =
     Returned (quadScene\<lparr>selectedElements := noElements\<lparr>edges := [4, 0, 1]\<rparr>,
        draggedEdge := Some \<lparr>e_indices = [(3, 4), (5, 3)],
          e_positions = [Vector3 0 1 0, Vector3 0 0 0, Vector3 0 0 0, Vector3 0 1 0],
          e_initialPositions = [Vector3 0 0 0, Vector3 0 1 0], e_edgeIndices = [4, 0, 1]\<rparr>\<rparr>)"
    by (simp add: startEdgeDrag_def quadScene_def selectedMesh_def count_def Let_def
        scannedSides_4 sideMatches_def includes'_def near_def elementAt_def vertexAt_eq
        distanceTo_less_epsilon distanceToSquared_def noElements_def)
  moreover have "startEdgeDrag [3, 4] [Vector3 0 0 0, Vector3 1 0 0] 0 seamScene =
     Returned (seamScene\<lparr>selectedElements := noElements\<lparr>edges := [0, 0, 1]\<rparr>,
        draggedEdge := Some \<lparr>e_indices = [(0, 1), (3, 4)],
          e_positions = [Vector3 0 0 0, Vector3 1 0 0, Vector3 0 0 0, Vector3 1 0 0],
          e_initialPositions = [Vector3 0 0 0, Vector3 1 0 0], e_edgeIndices = [0, 0, 1]\<rparr>\<rparr>)"
    by (simp add: startEdgeDrag_def seamScene_def selectedMesh_def count_def Let_def
        scannedSides_6 sideMatches_def includes'_def near_def elementAt_def vertexAt_eq
        distanceTo_less_epsilon distanceToSquared_def noElements_def)
  ultimately show ?thesis by (rule conjI)
qed

lemma scannedSides_iff:
  "(a, b) \<in> set (scannedSides n) \<longleftrightarrow>
     (\<exists>i j. i < n \<and> i mod 3 = 0 \<and> j < 3 \<and> a = i + j \<and> b = i + ((j + 1) mod 3))"
  by (auto simp: scannedSides_def triangleSides_def)

lemma sideMatched_includes:
  "a \<in> set vi \<Longrightarrow> b \<in> set vi \<Longrightarrow> sideMatched vi ps buf (a, b)"
  by (simp add: sideMatched_def sideMatches_def includes'_def)

text \<open>
  C9, amended. On a mesh, \<^verbatim>\<open>startEdgeDrag\<close> with two positions returns. Whenever it
  returns, the index of the clicked edge is the first entry of the session's
  \<^verbatim>\<open>edgeIndices\<close>, which is also the edge selection; every participant pair is a
  scanned side of the position buffer (its second or third index may lie past the end
  of the buffer, where the vertex is read as the origin); and a scanned side whose two
  vertices are both among the clicked \<^verbatim>\<open>vertexIndices\<close> is a participant.
\<close>

theorem startEdgeDrag_participants:
  assumes "selectedObject s = Some r" and "heap s r = Mesh g"
  shows "(2 \<le> length ps \<longrightarrow> (\<exists>s'. startEdgeDrag vertexIndices ps edgeIndex s = Returned s'))
     \<and> (\<forall>s'. startEdgeDrag vertexIndices ps edgeIndex s = Returned s' \<longrightarrow>
          (\<exists>d. draggedEdge s' = Some d
             \<and> e_edgeIndices d = edgeIndex # [0..<length (e_indices d)]
             \<and> edges (selectedElements s') = e_edgeIndices d
             \<and> set (e_indices d) \<subseteq> set (scannedSides (count (positionsOf s r)))
             \<and> (\<forall>i j. i < count (positionsOf s r) \<and> i mod 3 = 0 \<and> j < 3
                    \<and> i + j \<in> set vertexIndices \<and> i + ((j + 1) mod 3) \<in> set vertexIndices \<longrightarrow>
                    (i + j, i + ((j + 1) mod 3)) \<in> set (e_indices d))))"
proof (intro conjI impI allI)
  assume "2 \<le> length ps"
  with assms show "\<exists>s'. startEdgeDrag vertexIndices ps edgeIndex s = Returned s'"
    by (rule startEdgeDrag_returns)
next
  fix s'
  assume returned: "startEdgeDrag vertexIndices ps edgeIndex s = Returned s'"
  from startEdgeDrag_Returned [OF returned assms] obtain d where
    d: "draggedEdge s' = Some d"
    and pairs: "e_indices d = filter (sideMatched vertexIndices ps (positionsOf s r))
                  (scannedSides (count (positionsOf s r)))"
    and slots: "e_edgeIndices d = edgeIndex # [0..<length (e_indices d)]"
      "edges (selectedElements s') = e_edgeIndices d"
    by blast
  have "(i + j, i + ((j + 1) mod 3)) \<in> set (e_indices d)"
    if "i < count (positionsOf s r)" "i mod 3 = 0" "j < 3"
      "i + j \<in> set vertexIndices" "i + ((j + 1) mod 3) \<in> set vertexIndices" for i j
  proof -
    from that(1-3) have "(i + j, i + ((j + 1) mod 3)) \<in> set (scannedSides (count (positionsOf s r)))"
      unfolding scannedSides_iff by (intro exI [of _ i] exI [of _ j]) simp
    with sideMatched_includes [OF that(4,5)] show ?thesis by (simp add: pairs)
  qed
  with d pairs slots show "\<exists>d. draggedEdge s' = Some d
             \<and> e_edgeIndices d = edgeIndex # [0..<length (e_indices d)]
             \<and> edges (selectedElements s') = e_edgeIndices d
             \<and> set (e_indices d) \<subseteq> set (scannedSides (count (positionsOf s r)))
             \<and> (\<forall>i j. i < count (positionsOf s r) \<and> i mod 3 = 0 \<and> j < 3
                    \<and> i + j \<in> set vertexIndices \<and> i + ((j + 1) mod 3) \<in> set vertexIndices \<longrightarrow>
                    (i + j, i + ((j + 1) mod 3)) \<in> set (e_indices d))"
    by auto
qed

theorem startEdgeDrag_participants_witness:
  "selectedObject idleState = Some 0
   \<and> 2 \<le> length [Vector3 0 0 0, Vector3 1 0 0]
   \<and> startEdgeDrag [0, 1] [Vector3 0 0 0, Vector3 1 0 0] 0 idleState = Returned draggingEdge
   \<and> (\<exists>d. draggedEdge draggingEdge = Some d \<and> e_edgeIndices d = [0, 0]
          \<and> (0, 1) \<in> set (e_indices d))"
proof -
  have sel: "selectedObject idleState = Some 0"
    and mesh: "heap idleState 0 = Mesh \<lparr>kind = OtherGeometry,
        attributes_position = [Vector3 0 0 0, Vector3 1 0 0, Vector3 0 1 0], index = None\<rparr>"
    by (simp_all add: idleState_def)
  note facts = startEdgeDrag_participants [OF sel mesh, of "[Vector3 0 0 0, Vector3 1 0 0]" "[0, 1]" 0]
  from facts obtain s' where
    returned: "startEdgeDrag [0, 1] [Vector3 0 0 0, Vector3 1 0 0] 0 idleState = Returned s'"
    by auto
  with startEdgeDrag_idleState have s': "s' = draggingEdge" by simp
  from facts returned obtain d where
    d: "draggedEdge s' = Some d"
    and slots: "e_edgeIndices d = 0 # [0..<length (e_indices d)]"
    and clicked: "\<forall>i j. i < count (positionsOf idleState 0) \<and> i mod 3 = 0 \<and> j < 3
            \<and> i + j \<in> set [0, 1] \<and> i + ((j + 1) mod 3) \<in> set [0, 1] \<longrightarrow>
            (i + j, i + ((j + 1) mod 3)) \<in> set (e_indices d)"
    by blast
  have "count (positionsOf idleState 0) = 3"
    by (simp add: positionsOf_def mesh count_def)
  with clicked [rule_format, of 0 0] have "(0, 1) \<in> set (e_indices d)" by simp
  moreover from d s' have "length (e_indices d) = 1" by (auto simp: draggingEdge_def)
  ultimately show ?thesis using returned sel d slots s' by simp
qed

subsection \<open>Removing an object\<close>

lemma find_distinct_ids:
  "distinct (map o_id xs) \<Longrightarrow> e \<in> set xs \<Longrightarrow> o_id e = i \<Longrightarrow> List.find (\<lambda>obj. o_id obj = i) xs = Some e"
proof (induction xs)
  case Nil
  then show ?case by simp
next
  case (Cons a xs)
  show ?case
  proof (cases "o_id a = i")
    case True
    with Cons.prems have "e = a" by (metis distinct.simps(2) image_eqI list.simps(9) set_ConsD set_map)
    with True show ?thesis by simp
  next
    case False
    with Cons show ?thesis by auto
  qed
qed


lemma filter_other_ids:
  "\<forall>obj \<in> set xs. o_id obj \<noteq> i \<Longrightarrow> filter (\<lambda>obj. o_id obj \<noteq> i) xs = xs"
  by (induction xs) simp_all

lemma filter_distinct_ids:
  assumes "distinct (map o_id (xs @ e # ys))"
  shows "filter (\<lambda>obj. o_id obj \<noteq> o_id e) (xs @ e # ys) = xs @ ys"
proof -
  from assms have "o_id e \<notin> o_id ` set xs" "o_id e \<notin> o_id ` set ys"
    by auto
  then have "\<forall>obj \<in> set xs. o_id obj \<noteq> o_id e" "\<forall>obj \<in> set ys. o_id obj \<noteq> o_id e"
    by (metis imageI)+
  then show ?thesis by (simp add: filter_other_ids)
qed

text \<open>
  C10. With the ids of the object list distinct, \<^verbatim>\<open>removeObject(id)\<close> removes the
  entry with that id and keeps the others in order; the selection becomes
  \<^verbatim>\<open>null\<close> when the removed entry held the selected object and is unchanged
  otherwise; the modes, the selected elements, both drag sessions and the objects
  themselves are unchanged.
\<close>

theorem removeObject_removes_entry:
  assumes "distinct (map o_id (objects s))"
  shows "objects (removeObject i s) = filter (\<lambda>obj. o_id obj \<noteq> i) (objects s)
       \<and> (\<forall>xs e ys. objects s = xs @ e # ys \<and> o_id e = i \<longrightarrow> objects (removeObject i s) = xs @ ys)
       \<and> selectedObject (removeObject i s) =
           (if \<exists>obj \<in> set (objects s). o_id obj = i \<and> selectedObject s = Some (o_object obj)
            then None else selectedObject s)
       \<and> transformMode (removeObject i s) = transformMode s
       \<and> editMode (removeObject i s) = editMode s
       \<and> selectedElements (removeObject i s) = selectedElements s
       \<and> draggedVertex (removeObject i s) = draggedVertex s
       \<and> draggedEdge (removeObject i s) = draggedEdge s
       \<and> heap (removeObject i s) = heap s"
proof -
  have kept: "objects (removeObject i s) = filter (\<lambda>obj. o_id obj \<noteq> i) (objects s)"
    by (simp add: removeObject_def)
  have split: "\<forall>xs e ys. objects s = xs @ e # ys \<and> o_id e = i \<longrightarrow> objects (removeObject i s) = xs @ ys"
  proof (intro allI impI)
    fix xs e ys
    assume h: "objects s = xs @ e # ys \<and> o_id e = i"
    with assms have "distinct (map o_id (xs @ e # ys))" by simp
    from filter_distinct_ids [OF this] h show "objects (removeObject i s) = xs @ ys"
      by (simp add: kept)
  qed
  have sel: "selectedObject (removeObject i s) =
           (if \<exists>obj \<in> set (objects s). o_id obj = i \<and> selectedObject s = Some (o_object obj)
            then None else selectedObject s)"
  proof (cases "List.find (\<lambda>obj. o_id obj = i) (objects s)")
    case None
    then have "\<forall>obj \<in> set (objects s). o_id obj \<noteq> i"
      by (simp add: find_None_iff)
    with None show ?thesis by (simp add: removeObject_def)
  next
    case (Some e)
    then have e: "e \<in> set (objects s)" "o_id e = i"
      by (auto simp: find_Some_iff)
    have only: "obj = e" if "obj \<in> set (objects s)" "o_id obj = i" for obj
      using find_distinct_ids [OF assms that] Some by simp
    show ?thesis
    proof (cases "Some (o_object e) = selectedObject s")
      case True
      with Some e show ?thesis by (auto simp: removeObject_def)
    next
      case False
      with only have none: "\<not> (\<exists>obj \<in> set (objects s). o_id obj = i \<and> selectedObject s = Some (o_object obj))"
        by metis
      from Some False have "selectedObject (removeObject i s) = selectedObject s"
        by (simp add: removeObject_def)
      with none show ?thesis by (simp only: if_False)
    qed
  qed
  have rest: "transformMode (removeObject i s) = transformMode s"
    "editMode (removeObject i s) = editMode s"
    "selectedElements (removeObject i s) = selectedElements s"
    "draggedVertex (removeObject i s) = draggedVertex s"
    "draggedEdge (removeObject i s) = draggedEdge s"
    "heap (removeObject i s) = heap s"
    by (simp_all add: removeObject_def)
  from kept split sel rest show ?thesis by blast
qed

theorem removeObject_removes_entry_witness:
  "distinct (map o_id (objects threeObjects))
   \<and> map o_id (objects (removeObject ''b'' threeObjects)) = [''a'', ''c'']
   \<and> selectedObject threeObjects = Some 1
   \<and> selectedObject (removeObject ''b'' threeObjects) = None
   \<and> selectedObject (removeObject ''c'' threeObjects) = Some 1
   \<and> draggedVertex (removeObject ''b'' threeObjects) = draggedVertex threeObjects"
  using removeObject_removes_entry [of threeObjects "''b''"]
    removeObject_removes_entry [of threeObjects "''c''"]
  by (simp add: threeObjects_def)

subsection \<open>Derived edges\<close>

lemma digitChar_isDigit: "d < 10 \<Longrightarrow> isDigit (digitChar d)"
proof -
  assume "d < 10"
  then have "d = 0 \<or> d = 1 \<or> d = 2 \<or> d = 3 \<or> d = 4 \<or> d = 5 \<or> d = 6 \<or> d = 7 \<or> d = 8 \<or> d = 9"
    by arith
  then show ?thesis
    by (elim disjE) (simp_all add: digitChar_def isDigit_def)
qed

lemma digitValue_digitChar: "d < 10 \<Longrightarrow> digitValue (digitChar d) = Some d"
proof -
  assume "d < 10"
  then have "d = 0 \<or> d = 1 \<or> d = 2 \<or> d = 3 \<or> d = 4 \<or> d = 5 \<or> d = 6 \<or> d = 7 \<or> d = 8 \<or> d = 9"
    by arith
  then show ?thesis
    by (elim disjE) (simp_all add: digitChar_def digitValue_def)
qed

lemma toString_digits: "\<forall>c \<in> set (toString n). isDigit c"
proof (induction n rule: toString.induct)
  case (1 n)
  show ?case
  proof (cases "n < 10")
    case True
    then show ?thesis by (simp add: toString.simps [of n] digitChar_isDigit)
  next
    case False
    with "1" show ?thesis by (simp add: toString.simps [of n] digitChar_isDigit)
  qed
qed

lemma parseDigits_append:
  "parseDigits acc (xs @ ys) = (case parseDigits acc xs of None \<Rightarrow> None | Some v \<Rightarrow> parseDigits v ys)"
  by (induction xs arbitrary: acc) (simp_all split: option.splits)

lemma parseDigits_toString: "parseDigits 0 (toString n) = Some n"
proof (induction n rule: toString.induct)
  case (1 n)
  show ?case
  proof (cases "n < 10")
    case True
    then show ?thesis by (simp add: toString.simps [of n] digitValue_digitChar)
  next
    case False
    with "1" show ?thesis
      by (simp add: toString.simps [of n] parseDigits_append digitValue_digitChar)
  qed
qed

lemma Number'_toString: "Number' (toString n) = Some n"
  by (simp add: Number'_def parseDigits_toString)

lemma split_not_Nil: "split sep cs \<noteq> []"
  by (induction cs) (simp_all split: list.splits)

lemma split_no_separator: "sep \<notin> set cs \<Longrightarrow> split sep cs = [cs]"
  by (induction cs) auto

lemma split_at_separator: "sep \<notin> set xs \<Longrightarrow> split sep (xs @ sep # ys) = xs # split sep ys"
  by (induction xs) auto

lemma toString_no_comma: "CHR '','' \<notin> set (toString n)"
proof -
  have "\<not> isDigit CHR '',''" by (simp add: isDigit_def)
  with toString_digits [of n] show ?thesis by blast
qed

lemma toString_no_dash: "CHR ''-'' \<notin> set (toString n)"
proof -
  have "\<not> isDigit CHR ''-''" by (simp add: isDigit_def)
  with toString_digits [of n] show ?thesis by blast
qed

lemma parse_comma:
  "map Number' (split CHR '','' (toString a @ '','' @ toString b)) = [Some a, Some b]"
  by (simp add: split_at_separator toString_no_comma split_no_separator Number'_toString)

lemma parse_dash:
  "map Number' (split CHR ''-'' (toString a @ ''-'' @ toString b)) = [Some a, Some b]"
  by (simp add: split_at_separator toString_no_dash split_no_separator Number'_toString)

lemma addAll_set: "set (addAll elements xs) = set elements \<union> set xs"
  by (induction xs arbitrary: elements) auto

lemma addAll_distinct: "distinct elements \<Longrightarrow> distinct (addAll elements xs)"
  by (induction xs arbitrary: elements) simp_all

lemma newSet_set: "set (newSet xs) = set xs"
  by (simp add: newSet_def addAll_set)

lemma newSet_distinct: "distinct (newSet xs)"
  by (simp add: newSet_def addAll_distinct)

lemma triples_complete:
  "length array mod 3 = 0 \<Longrightarrow> \<forall>t \<in> set (triples array). \<exists>a b c. t = (Some a, Some b, Some c)"
proof (induction array rule: triples.induct)
  case 1
  then show ?case by simp
next
  case (2 a)
  then show ?case by simp
next
  case (3 a b)
  then show ?case by simp
next
  case (4 a b c rest)
  then have "length rest mod 3 = 0" by simp
  with "4.IH" show ?case by simp
qed


lemma pushedEdges_complete:
  assumes "length array mod 3 = 0"
  shows "\<forall>e \<in> set (pushedEdges array). \<exists>a b. e = (Some a, Some b)"
proof
  fix e
  assume "e \<in> set (pushedEdges array)"
  then obtain t where t: "t \<in> set (triples array)"
    and e: "e \<in> set (case t of (a, b, c) \<Rightarrow> [(a, b), (b, c), (c, a)])"
    by (auto simp: pushedEdges_def)
  from triples_complete [OF assms] t obtain a b c where "t = (Some a, Some b, Some c)"
    by blast
  with e show "\<exists>a b. e = (Some a, Some b)" by auto
qed

lemma edgesSet_pushedEdges:
  "edgesSet (Some indices) = newSet (map (\<lambda>(x, y). edgeKey x y) (pushedEdges indices))"
proof -
  have "concat (map (\<lambda>(a, b, c). [edgeKey a b, edgeKey b c, edgeKey c a]) ts) =
      map (\<lambda>(x, y). edgeKey x y) (concat (map (\<lambda>(a, b, c). [(a, b), (b, c), (c, a)]) ts))" for ts
    by (induction ts) auto
  then show ?thesis by (simp add: edgesSet_def pushedEdges_def)
qed

lemma parse_edgeKey:
  "map Number' (split CHR ''-'' (edgeKey (Some a) (Some b))) = [Some (min a b), Some (max a b)]"
  using parse_dash [of "min a b" "max a b"]
  by (simp add: edgeKey_def template_def mathMin_def mathMax_def)

lemma parse_joinComma:
  "map Number' (split CHR '','' (joinComma (Some a, Some b))) = [Some a, Some b]"
  using parse_comma [of a b] by (simp add: joinComma_def)

lemma sort2_complete: "\<exists>x y. sort2 (Some a, Some b) = (Some x, Some y)"
  by (simp add: sort2_def)

lemma edgeVertices_set:
  assumes "length indices mod 3 = 0"
  shows "set (edgeVertices (Some indices)) =
           {[Some (min a b), Some (max a b)] | a b. (Some a, Some b) \<in> set (pushedEdges indices)}"
proof -
  have "set (edgeVertices (Some indices)) =
      (\<lambda>e. map Number' (split CHR ''-'' (case e of (x, y) \<Rightarrow> edgeKey x y))) ` set (pushedEdges indices)"
    by (simp add: edgeVertices_def edgesSet_pushedEdges newSet_set image_image)
  also have "\<dots> = {[Some (min a b), Some (max a b)] | a b. (Some a, Some b) \<in> set (pushedEdges indices)}"
  proof (intro equalityI subsetI)
    fix v
    assume "v \<in> (\<lambda>e. map Number' (split CHR ''-'' (case e of (x, y) \<Rightarrow> edgeKey x y))) ` set (pushedEdges indices)"
    then obtain e where e: "e \<in> set (pushedEdges indices)"
      and v: "v = map Number' (split CHR ''-'' (case e of (x, y) \<Rightarrow> edgeKey x y))"
      by blast
    from pushedEdges_complete [OF assms] e obtain a b where ab: "e = (Some a, Some b)" by blast
    with v have "v = [Some (min a b), Some (max a b)]" by (simp add: parse_edgeKey)
    with e ab show "v \<in> {[Some (min a b), Some (max a b)] | a b. (Some a, Some b) \<in> set (pushedEdges indices)}"
      by blast
  next
    fix v
    assume "v \<in> {[Some (min a b), Some (max a b)] | a b. (Some a, Some b) \<in> set (pushedEdges indices)}"
    then obtain a b where v: "v = [Some (min a b), Some (max a b)]"
      and e: "(Some a, Some b) \<in> set (pushedEdges indices)"
      by blast
    show "v \<in> (\<lambda>e. map Number' (split CHR ''-'' (case e of (x, y) \<Rightarrow> edgeKey x y))) ` set (pushedEdges indices)"
      by (rule image_eqI [where x = "(Some a, Some b)"]) (simp_all add: v parse_edgeKey e)
  qed
  finally show ?thesis .
qed

lemma edgeVertices_distinct:
  assumes "length indices mod 3 = 0"
  shows "distinct (edgeVertices (Some indices))"
proof -
  let ?keys = "edgesSet (Some indices)"
  let ?parse = "\<lambda>k. map Number' (split CHR ''-'' k)"
  have form: "\<exists>a b. k = edgeKey (Some a) (Some b)" if "k \<in> set ?keys" for k
  proof -
    from that obtain e where e: "e \<in> set (pushedEdges indices)" and k: "k = (case e of (x, y) \<Rightarrow> edgeKey x y)"
      by (auto simp: edgesSet_pushedEdges newSet_set)
    from pushedEdges_complete [OF assms] e obtain a b where "e = (Some a, Some b)" by blast
    with k show ?thesis by auto
  qed
  have "inj_on ?parse (set ?keys)"
  proof (rule inj_onI)
    fix k1 k2
    assume k1: "k1 \<in> set ?keys" and k2: "k2 \<in> set ?keys" and eq: "?parse k1 = ?parse k2"
    from form [OF k1] obtain a b where 1: "k1 = edgeKey (Some a) (Some b)" by blast
    from form [OF k2] obtain c d where 2: "k2 = edgeKey (Some c) (Some d)" by blast
    from eq have "min a b = min c d" "max a b = max c d"
      by (simp_all add: 1 2 parse_edgeKey)
    then show "k1 = k2"
      by (simp add: 1 2 edgeKey_def mathMin_def mathMax_def)
  qed
  moreover have "distinct ?keys"
    by (simp add: edgesSet_pushedEdges newSet_distinct)
  ultimately show ?thesis
    by (simp add: edgeVertices_def distinct_map)
qed

lemma uniqueEdges_distinct:
  assumes "length array mod 3 = 0"
  shows "distinct (uniqueEdges array)"
proof -
  let ?keys = "newSet (map (\<lambda>e. joinComma (sort2 e)) (pushedEdges array))"
  let ?parse = "\<lambda>k. map Number' (split CHR '','' k)"
  have form: "\<exists>x y. k = joinComma (Some x, Some y)" if "k \<in> set ?keys" for k
  proof -
    from that obtain e where e: "e \<in> set (pushedEdges array)" and k: "k = joinComma (sort2 e)"
      by (auto simp: newSet_set)
    from pushedEdges_complete [OF assms] e obtain a b where "e = (Some a, Some b)" by blast
    moreover from sort2_complete [of a b] obtain x y where "sort2 (Some a, Some b) = (Some x, Some y)"
      by blast
    ultimately have "k = joinComma (Some x, Some y)" using k by simp
    then show ?thesis by blast
  qed
  have "inj_on ?parse (set ?keys)"
  proof (rule inj_onI)
    fix k1 k2
    assume k1: "k1 \<in> set ?keys" and k2: "k2 \<in> set ?keys" and eq: "?parse k1 = ?parse k2"
    from form [OF k1] obtain a b where 1: "k1 = joinComma (Some a, Some b)" by blast
    from form [OF k2] obtain c d where 2: "k2 = joinComma (Some c, Some d)" by blast
    from eq have "a = c" "b = d"
      by (simp_all add: 1 2 parse_joinComma)
    then show "k1 = k2" by (simp add: 1 2)
  qed
  moreover have "distinct ?keys" by (rule newSet_distinct)
  ultimately show ?thesis
    by (simp add: uniqueEdges_def distinct_map)
qed

lemma toString_inject: "toString a = toString b \<Longrightarrow> a = b"
proof -
  assume "toString a = toString b"
  then have "Number' (toString a) = Number' (toString b)" by simp
  then show "a = b" by (simp add: Number'_toString)
qed

lemma sort2_swap: "sort2 (Some a, Some b) = sort2 (Some b, Some a)"
proof (cases "toString a = toString b")
  case True
  then have "a = b" by (rule toString_inject)
  then show ?thesis by simp
next
  case False
  then show ?thesis by (auto simp: sort2_def)
qed

lemma parse_sorted:
  "map Number' (split CHR '','' (joinComma (sort2 (Some a, Some b)))) =
     (if toString b < toString a then [Some b, Some a] else [Some a, Some b])"
  by (simp add: sort2_def parse_joinComma)

lemma parse_sorted_set:
  "set (map Number' (split CHR '','' (joinComma (sort2 (Some a, Some b))))) = {Some a, Some b}"
  by (auto simp: parse_sorted)

lemma uniqueEdges_pairs_distinct:
  assumes "length array mod 3 = 0"
  shows "distinct (map set (uniqueEdges array))"
proof -
  let ?keys = "newSet (map (\<lambda>e. joinComma (sort2 e)) (pushedEdges array))"
  let ?ends = "\<lambda>k. set (map Number' (split CHR '','' k))"
  have form: "\<exists>a b. k = joinComma (sort2 (Some a, Some b))" if "k \<in> set ?keys" for k
  proof -
    from that obtain e where e: "e \<in> set (pushedEdges array)" and k: "k = joinComma (sort2 e)"
      by (auto simp: newSet_set)
    from pushedEdges_complete [OF assms] e obtain a b where "e = (Some a, Some b)" by blast
    with k show ?thesis by blast
  qed
  have "inj_on ?ends (set ?keys)"
  proof (rule inj_onI)
    fix k1 k2
    assume k1: "k1 \<in> set ?keys" and k2: "k2 \<in> set ?keys" and eq: "?ends k1 = ?ends k2"
    from form [OF k1] obtain a b where 1: "k1 = joinComma (sort2 (Some a, Some b))" by blast
    from form [OF k2] obtain c d where 2: "k2 = joinComma (sort2 (Some c, Some d))" by blast
    from eq have "{Some a, Some b} = {Some c, Some d}"
      unfolding 1 2 parse_sorted_set .
    then have "a = c \<and> b = d \<or> a = d \<and> b = c"
      by (auto simp: doubleton_eq_iff)
    then show "k1 = k2"
      using sort2_swap [of c d] by (auto simp: 1 2)
  qed
  moreover have "distinct ?keys" by (rule newSet_distinct)
  ultimately have "distinct (map ?ends ?keys)" by (simp add: distinct_map)
  then show ?thesis by (simp add: uniqueEdges_def comp_def)
qed

lemma uniqueEdges_pairs:
  assumes "length array mod 3 = 0"
  shows "set (map set (uniqueEdges array)) =
           {{Some a, Some b} | a b. (Some a, Some b) \<in> set (pushedEdges array)}"
proof (intro equalityI subsetI)
  fix v
  assume "v \<in> set (map set (uniqueEdges array))"
  then obtain e where e: "e \<in> set (pushedEdges array)"
    and v: "v = set (map Number' (split CHR '','' (joinComma (sort2 e))))"
    by (auto simp: uniqueEdges_def newSet_set)
  from pushedEdges_complete [OF assms] e obtain a b where ab: "e = (Some a, Some b)" by blast
  with v have "v = {Some a, Some b}" by (simp only: parse_sorted_set)
  with e ab show "v \<in> {{Some a, Some b} | a b. (Some a, Some b) \<in> set (pushedEdges array)}"
    by blast
next
  fix v
  assume "v \<in> {{Some a, Some b} | a b. (Some a, Some b) \<in> set (pushedEdges array)}"
  then obtain a b where v: "v = {Some a, Some b}"
    and e: "(Some a, Some b) \<in> set (pushedEdges array)"
    by blast
  have "set (map Number' (split CHR '','' (joinComma (sort2 (Some a, Some b)))))
      \<in> (\<lambda>e. set (map Number' (split CHR '','' (joinComma (sort2 e))))) ` set (pushedEdges array)"
    using e by (rule imageI)
  then have "{Some a, Some b}
      \<in> (\<lambda>e. set (map Number' (split CHR '','' (joinComma (sort2 e))))) ` set (pushedEdges array)"
    by (simp only: parse_sorted_set)
  then show "v \<in> set (map set (uniqueEdges array))"
    by (simp add: v uniqueEdges_def newSet_set image_image)
qed

lemma edgeVertices_pairs_distinct:
  assumes "length indices mod 3 = 0"
  shows "distinct (map set (edgeVertices (Some indices)))"
proof -
  have "inj_on set (set (edgeVertices (Some indices)))"
  proof (rule inj_onI)
    fix e1 e2
    assume "e1 \<in> set (edgeVertices (Some indices))" and "e2 \<in> set (edgeVertices (Some indices))"
      and eq: "set e1 = set e2"
    then obtain a b c d where 1: "e1 = [Some (min a b), Some (max a b)]"
      and 2: "e2 = [Some (min c d), Some (max c d)]"
      unfolding edgeVertices_set [OF assms] by blast
    from eq have "{min a b, max a b} = {min c d, max c d}"
      unfolding 1 2 by (auto simp: doubleton_eq_iff)
    then have "min a b = min c d \<and> max a b = max c d"
      by (auto simp: doubleton_eq_iff min_def max_def split: if_splits)
    then show "e1 = e2" by (simp add: 1 2)
  qed
  with edgeVertices_distinct [OF assms] show ?thesis by (simp add: distinct_map)
qed

text \<open>
  C5 as stated fails: a triangle that repeats a vertex index has a side from that
  index to itself, and the derived set holds the edge \<open>(0, 0)\<close>, for which \<open>a < b\<close>
  is false.
\<close>

theorem degenerate_side_counterexample:
  "edgeVertices (Some [0, 0, 1]) = [[Some 0, Some 0], [Some 0, Some 1]]"
  by (simp add: edgeVertices_def edgesSet_def newSet_def edgeKey_def template_def mathMin_def mathMax_def
      toString.simps digitChar_def Number'_def digitValue_def)

text \<open>
  C5, amended. For an index array of whole triangles, each derivation emits every
  edge once: taken as unordered pairs, the emitted edges are pairwise different and
  are exactly the triangle sides \<open>{a, b}\<close>, whatever the order of the triangles and
  of the two indices of a side. The edges emitted from the \<^verbatim>\<open>min-max\<close> keys are the
  pairs \<open>(min a b, max a b)\<close>; each of them has \<open>a \<le> b\<close>, and \<open>a < b\<close> when no side
  joins an index to itself.
\<close>

theorem derived_edges_unique_and_ordered:
  assumes "length indices mod 3 = 0"
  shows "distinct (map set (uniqueEdges indices))
       \<and> set (map set (uniqueEdges indices)) =
           {{Some a, Some b} | a b. (Some a, Some b) \<in> set (pushedEdges indices)}
       \<and> distinct (map set (edgeVertices (Some indices)))
       \<and> set (map set (edgeVertices (Some indices))) =
           {{Some a, Some b} | a b. (Some a, Some b) \<in> set (pushedEdges indices)}
       \<and> distinct (uniqueEdges indices)
       \<and> distinct (edgeVertices (Some indices))
       \<and> set (edgeVertices (Some indices)) =
           {[Some (min a b), Some (max a b)] | a b. (Some a, Some b) \<in> set (pushedEdges indices)}
       \<and> (\<forall>e \<in> set (edgeVertices (Some indices)). \<exists>a b. e = [Some a, Some b] \<and> a \<le> b)
       \<and> ((\<forall>a. (Some a, Some a) \<notin> set (pushedEdges indices)) \<longrightarrow>
            (\<forall>e \<in> set (edgeVertices (Some indices)). \<exists>a b. e = [Some a, Some b] \<and> a < b))"
proof -
  note members = edgeVertices_set [OF assms]
  have ordered: "\<forall>e \<in> set (edgeVertices (Some indices)). \<exists>a b. e = [Some a, Some b] \<and> a \<le> b"
  proof
    fix e
    assume "e \<in> set (edgeVertices (Some indices))"
    with members obtain a b where "e = [Some (min a b), Some (max a b)]" by blast
    moreover have "min a b \<le> max a b" by simp
    ultimately show "\<exists>a b. e = [Some a, Some b] \<and> a \<le> b" by blast
  qed
  have strict: "\<forall>e \<in> set (edgeVertices (Some indices)). \<exists>a b. e = [Some a, Some b] \<and> a < b"
    if proper: "\<forall>a. (Some a, Some a) \<notin> set (pushedEdges indices)"
  proof
    fix e
    assume "e \<in> set (edgeVertices (Some indices))"
    with members obtain a b where e: "e = [Some (min a b), Some (max a b)]"
      and side: "(Some a, Some b) \<in> set (pushedEdges indices)" by blast
    from side proper have "a \<noteq> b" by blast
    then have "min a b < max a b" by (simp add: min_def max_def)
    with e show "\<exists>a b. e = [Some a, Some b] \<and> a < b" by blast
  qed
  have ends: "set [Some (min a b), Some (max a b)] = {Some a, Some b}" for a b :: nat
    by (auto simp: min_def max_def)
  have pairs: "set (map set (edgeVertices (Some indices))) =
      {{Some a, Some b} | a b. (Some a, Some b) \<in> set (pushedEdges indices)}"
  proof (intro equalityI subsetI)
    fix v
    assume "v \<in> set (map set (edgeVertices (Some indices)))"
    then obtain e where "e \<in> set (edgeVertices (Some indices))" and v: "v = set e" by auto
    with members obtain a b where "e = [Some (min a b), Some (max a b)]"
      and side: "(Some a, Some b) \<in> set (pushedEdges indices)" by blast
    with v have "v = {Some a, Some b}" by (simp only: ends)
    with side show "v \<in> {{Some a, Some b} | a b. (Some a, Some b) \<in> set (pushedEdges indices)}"
      by blast
  next
    fix v
    assume "v \<in> {{Some a, Some b} | a b. (Some a, Some b) \<in> set (pushedEdges indices)}"
    then obtain a b where v: "v = {Some a, Some b}"
      and side: "(Some a, Some b) \<in> set (pushedEdges indices)" by blast
    from side members have "[Some (min a b), Some (max a b)] \<in> set (edgeVertices (Some indices))"
      by blast
    then have "set [Some (min a b), Some (max a b)] \<in> set ` set (edgeVertices (Some indices))"
      by (rule imageI)
    then show "v \<in> set (map set (edgeVertices (Some indices)))"
      by (simp only: ends v set_map)
  qed
  from uniqueEdges_pairs_distinct [OF assms] uniqueEdges_pairs [OF assms]
    edgeVertices_pairs_distinct [OF assms] pairs
    uniqueEdges_distinct [OF assms] edgeVertices_distinct [OF assms] members ordered strict
  show ?thesis by blast
qed

theorem derived_edges_unique_and_ordered_witness:
  "length [0, 1, 2, 0, 2, 3 :: nat] mod 3 = 0
   \<and> pushedEdges [0, 1, 2, 0, 2, 3]
       = [(Some 0, Some 1), (Some 1, Some 2), (Some 2, Some 0),
          (Some 0, Some 2), (Some 2, Some 3), (Some 3, Some 0)]
   \<and> uniqueEdges [0, 1, 2, 0, 2, 3] =
       [[Some 0, Some 1], [Some 1, Some 2], [Some 0, Some 2], [Some 2, Some 3], [Some 0, Some 3]]
   \<and> edgeVertices (Some [0, 1, 2, 0, 2, 3]) =
       [[Some 0, Some 1], [Some 1, Some 2], [Some 0, Some 2], [Some 2, Some 3], [Some 0, Some 3]]
   \<and> distinct (map set (uniqueEdges [0, 1, 2, 0, 2, 3]))
   \<and> distinct (map set (edgeVertices (Some [0, 1, 2, 0, 2, 3])))
   \<and> distinct (edgeVertices (Some [0, 1, 2, 0, 2, 3]))
   \<and> distinct (uniqueEdges [0, 1, 2, 0, 2, 3])
   \<and> (\<forall>a. (Some a, Some a) \<notin> set (pushedEdges [0, 1, 2, 0, 2, 3]))"
proof -
  have len: "length [0, 1, 2, 0, 2, 3 :: nat] mod 3 = 0" by simp
  have sides: "pushedEdges [0, 1, 2, 0, 2, 3]
       = [(Some 0, Some 1), (Some 1, Some 2), (Some 2, Some 0),
          (Some 0, Some 2), (Some 2, Some 3), (Some 3, Some 0)]"
    by (simp add: pushedEdges_def)
  have sorted: "uniqueEdges [0, 1, 2, 0, 2, 3] =
       [[Some 0, Some 1], [Some 1, Some 2], [Some 0, Some 2], [Some 2, Some 3], [Some 0, Some 3]]"
    by (simp add: uniqueEdges_def pushedEdges_def newSet_def sort2_def joinComma_def
        toString.simps digitChar_def Number'_def digitValue_def)
  have quad: "edgeVertices (Some [0, 1, 2, 0, 2, 3]) =
       [[Some 0, Some 1], [Some 1, Some 2], [Some 0, Some 2], [Some 2, Some 3], [Some 0, Some 3]]"
    by (simp add: edgeVertices_def edgesSet_def newSet_def edgeKey_def template_def mathMin_def
        mathMax_def toString.simps digitChar_def Number'_def digitValue_def)
  have proper: "\<forall>a. (Some a, Some a) \<notin> set (pushedEdges [0, 1, 2, 0, 2, 3])"
    by (auto simp: pushedEdges_def)
  from derived_edges_unique_and_ordered [OF len] proper
  have "distinct (map set (uniqueEdges [0, 1, 2, 0, 2, 3]))"
    and "distinct (map set (edgeVertices (Some [0, 1, 2, 0, 2, 3])))"
    and "distinct (edgeVertices (Some [0, 1, 2, 0, 2, 3]))"
    and "distinct (uniqueEdges [0, 1, 2, 0, 2, 3])"
    and "\<forall>e \<in> set (edgeVertices (Some [0, 1, 2, 0, 2, 3])). \<exists>a b. e = [Some a, Some b] \<and> a < b"
    by blast+
  with len sides sorted quad proper show ?thesis by blast
qed

text \<open>
  The comma-joined keys are ordered as text, not as numbers: \<open>10\<close> comes before
  \<open>2\<close>.
\<close>

lemma uniqueEdges_orders_as_text:
  "uniqueEdges [2, 10, 11] = [[Some 10, Some 2], [Some 10, Some 11], [Some 11, Some 2]]"
  by (simp add: uniqueEdges_def pushedEdges_def newSet_def sort2_def joinComma_def
      toString.simps digitChar_def Number'_def digitValue_def)

end
